theory Spec2Isabelle
  imports Main "HOL-Library.Word"
begin

section \<open>ExcaliDash private vault: client-side cryptography and session state\<close>

text \<open>
  A shallow embedding of \<^verbatim>\<open>frontend/src/utils/crypto.ts\<close>,
  \<^verbatim>\<open>frontend/src/context/VaultContext.tsx\<close> and the vault section of the
  frontend API module.

  Conventions.
  \<^item> A \<^verbatim>\<open>Uint8Array\<close> is a list of 8-bit words.
  \<^item> Text that goes through \<^verbatim>\<open>TextEncoder\<close>, \<^verbatim>\<open>TextDecoder\<close> or \<^verbatim>\<open>JSON\<close> (passwords,
    names, JSON text) is a \<open>ustring\<close>: the list of its 16-bit code units, any JavaScript
    string.
  \<^item> The other strings are \<open>string\<close>s, one \<open>char\<close> per code unit: the hex, base64 and
    binary strings the code builds have no code unit above 255; hints and messages are
    only stored and passed on.
  \<^item> A rejected promise or a thrown exception is the \<open>Inl\<close> branch of a sum.
  \<^item> An \<^verbatim>\<open>async\<close> function runs from call to return as one step: nothing else happens
    at its \<^verbatim>\<open>await\<close>s.
\<close>

type_synonym byte = "8 word"
type_synonym bytes = "byte list"
type_synonym ustring = "16 word list"

text \<open>A string literal of the ASCII range as code units.\<close>

definition ustr :: "string \<Rightarrow> ustring" where
  "ustr s = map (\<lambda>c. of_nat (of_char c)) s"

subsection \<open>Hex encoding (crypto.ts, bytesToHex and hexToBytes)\<close>

text \<open>\<^verbatim>\<open>Number.prototype.toString(16)\<close> on a non-negative integer: lowercase digits, most
  significant first, no leading zero.\<close>

definition hexDigit :: "nat \<Rightarrow> char" where
  "hexDigit d = ''0123456789abcdef'' ! d"

fun toString16 :: "nat \<Rightarrow> string" where
  "toString16 n = (if n < 16 then [hexDigit n]
                   else toString16 (n div 16) @ [hexDigit (n mod 16)])"

declare toString16.simps [simp del]

text \<open>\<^verbatim>\<open>String.prototype.padStart(n, c)\<close> with a one-character filler.\<close>

definition padStart :: "nat \<Rightarrow> char \<Rightarrow> string \<Rightarrow> string" where
  "padStart n c s = replicate (n - length s) c @ s"

text \<open>\<^verbatim>\<open>Array.from(bytes).map((b) => b.toString(16).padStart(2, "0")).join("")\<close>\<close>

definition bytesToHex :: "bytes \<Rightarrow> string" where
  "bytesToHex bs = concat (map (\<lambda>b. padStart 2 CHR ''0'' (toString16 (unat b))) bs)"

text \<open>
  \<^verbatim>\<open>parseInt(s, 16)\<close> as ECMAScript defines it: leading white space is skipped, one sign
  is read, a \<^verbatim>\<open>0x\<close> or \<^verbatim>\<open>0X\<close> prefix is dropped, then the longest run of radix-16 digits
  is the number; no digit at all is \<^verbatim>\<open>NaN\<close>, here \<open>None\<close>.
\<close>

definition isWhiteSpace :: "char \<Rightarrow> bool" where
  "isWhiteSpace c = (of_char c \<in> set [9, 10, 11, 12, 13, 32, 160 :: nat])"

definition digitValue :: "char \<Rightarrow> nat option" where
  "digitValue c =
     (let n = (of_char c :: nat) in
      if 48 \<le> n \<and> n \<le> 57 then Some (n - 48)
      else if 97 \<le> n \<and> n \<le> 122 then Some (n - 87)
      else if 65 \<le> n \<and> n \<le> 90 then Some (n - 55)
      else None)"

definition isRadixDigit :: "nat \<Rightarrow> char \<Rightarrow> bool" where
  "isRadixDigit r c = (case digitValue c of None \<Rightarrow> False | Some v \<Rightarrow> v < r)"

definition radixValue :: "nat \<Rightarrow> string \<Rightarrow> nat" where
  "radixValue r z = foldl (\<lambda>acc c. r * acc + (case digitValue c of None \<Rightarrow> 0 | Some v \<Rightarrow> v)) 0 z"

definition parseInt16 :: "string \<Rightarrow> int option" where
  "parseInt16 str =
     (let s = dropWhile isWhiteSpace str;
          sign = (if s \<noteq> [] \<and> hd s = CHR ''-'' then - 1 else 1 :: int);
          s1 = (if s \<noteq> [] \<and> (hd s = CHR ''+'' \<or> hd s = CHR ''-'') then tl s else s);
          s2 = (if take 2 s1 = ''0x'' \<or> take 2 s1 = ''0X'' then drop 2 s1 else s1);
          z = takeWhile (isRadixDigit 16) s2
      in if z = [] then None else Some (sign * int (radixValue 16 z)))"

text \<open>Storing a number into a \<^verbatim>\<open>Uint8Array\<close> slot: \<^verbatim>\<open>NaN\<close> becomes 0, an integer is taken
  modulo 256.\<close>

definition toUint8 :: "int option \<Rightarrow> byte" where
  "toUint8 v = (case v of None \<Rightarrow> 0 | Some i \<Rightarrow> word_of_int i)"

text \<open>\<^verbatim>\<open>String.prototype.substr(start, len)\<close> for non-negative arguments.\<close>

definition substr :: "string \<Rightarrow> nat \<Rightarrow> nat \<Rightarrow> string" where
  "substr s start len = take len (drop start s)"

text \<open>
  \<^verbatim>\<open>new Uint8Array(hex.length / 2)\<close> truncates a fractional length, so the array has
  \<open>length hex div 2\<close> slots; slot \<open>i\<close> receives \<^verbatim>\<open>parseInt(hex.substr(i * 2, 2), 16)\<close>.
\<close>

definition hexToBytes :: "string \<Rightarrow> bytes" where
  "hexToBytes hex =
     map (\<lambda>i. toUint8 (parseInt16 (substr hex (i * 2) 2))) [0 ..< length hex div 2]"

subsection \<open>The platform the code runs on\<close>

text \<open>
  Exceptions the code can meet. The first six are the platform's; \<open>HttpError\<close> is what the
  HTTP client throws for a request that fails (no answer, or an answer outside 2xx), carrying
  the status when there is one; \<open>Error\<close> is \<^verbatim>\<open>new Error(message)\<close>.
\<close>

datatype error =
    OperationError
  | InvalidAccessError
  | InvalidCharacterError
  | SyntaxError
  | TypeError
  | RangeError
  | HttpError "nat option"
  | Error string

datatype hashAlgorithm = SHA_1 | SHA_256 | SHA_384 | SHA_512

datatype keyUsage =
  Encrypt | Decrypt | Sign | Verify | DeriveKey | DeriveBits | WrapKey | UnwrapKey

datatype keyAlgorithm = PBKDF2 | AES_GCM nat

text \<open>A \<^verbatim>\<open>CryptoKey\<close>. The field \<open>material\<close> is the key's internal slot: scripts have no
  accessor for it, only the operations of \<^verbatim>\<open>crypto.subtle\<close> read it.\<close>

record cryptoKey =
  algorithm :: keyAlgorithm
  extractable :: bool
  usages :: "keyUsage list"
  material :: bytes

text \<open>
  The primitives behind \<^verbatim>\<open>crypto.subtle\<close>, \<^verbatim>\<open>TextEncoder\<close>, \<^verbatim>\<open>TextDecoder\<close>, \<^verbatim>\<open>btoa\<close>,
  \<^verbatim>\<open>atob\<close> and \<^verbatim>\<open>JSON\<close> are not code of the repository; they are parameters of the
  model. \<open>'p\<close> is the type of drawing payloads \<^verbatim>\<open>{elements, appState, files}\<close>.
  \<^item> \<open>digest h data\<close>: the hash of \<open>data\<close>.
  \<^item> \<open>pbkdf2 h password salt iterations bits\<close>: the derived bits.
  \<^item> \<open>aesGcmSeal k nonce plaintext\<close>: ciphertext followed by the 128-bit tag.
  \<^item> \<open>aesGcmOpen k nonce ciphertext\<close>: the plaintext, or \<open>None\<close> when the tag does not
    verify.
  \<^item> \<open>atob s\<close> is \<open>None\<close> when \<open>s\<close> is not base64; \<open>jsonParse s\<close> is \<open>None\<close> when
    \<open>s\<close> is not JSON; \<open>jsonStringify p\<close> is \<open>None\<close> when \<^verbatim>\<open>JSON.stringify\<close> throws (a
    cycle, a BigInt).
  \<^item> \<open>maxArguments\<close>: the most arguments the engine accepts in one call; it differs
    between engines and is of the order of a hundred thousand.
  Nothing is assumed of them here; what a theorem needs of them is among its hypotheses.
\<close>

record 'p runtime =
  digest :: "hashAlgorithm \<Rightarrow> bytes \<Rightarrow> bytes"
  pbkdf2 :: "hashAlgorithm \<Rightarrow> bytes \<Rightarrow> bytes \<Rightarrow> nat \<Rightarrow> nat \<Rightarrow> bytes"
  aesGcmSeal :: "bytes \<Rightarrow> bytes \<Rightarrow> bytes \<Rightarrow> bytes"
  aesGcmOpen :: "bytes \<Rightarrow> bytes \<Rightarrow> bytes \<Rightarrow> bytes option"
  textEncode :: "ustring \<Rightarrow> bytes"
  textDecode :: "bytes \<Rightarrow> ustring"
  btoa :: "string \<Rightarrow> string"
  atob :: "string \<Rightarrow> string option"
  jsonStringify :: "'p \<Rightarrow> ustring option"
  jsonParse :: "ustring \<Rightarrow> 'p option"
  maxArguments :: nat

text \<open>
  \<^verbatim>\<open>crypto.getRandomValues\<close> reads the platform's random source. The source is an infinite
  tape of bytes; a call takes the first \<open>n\<close> and leaves the rest.
\<close>

type_synonym entropy = "nat \<Rightarrow> byte"

definition getRandomValues :: "nat \<Rightarrow> entropy \<Rightarrow> bytes \<times> entropy" where
  "getRandomValues n e = (map e [0 ..< n], \<lambda>i. e (i + n))"

text \<open>
  \<^verbatim>\<open>String.fromCharCode(...bytes)\<close>: the spread passes every byte as one argument of the
  call, which throws a \<^verbatim>\<open>RangeError\<close> when there are more than the engine accepts;
  otherwise the result is the string whose code units are the bytes (\<open>binaryString\<close>).
  \<^verbatim>\<open>Uint8Array.from(s, (c) => c.charCodeAt(0))\<close> has no such limit.
\<close>

definition binaryString :: "bytes \<Rightarrow> string" where
  "binaryString bs = map (\<lambda>b. char_of (unat b)) bs"

definition fromCharCode :: "'p runtime \<Rightarrow> bytes \<Rightarrow> error + string" where
  "fromCharCode rt bs =
     (if length bs \<le> maxArguments rt then Inr (binaryString bs) else Inl RangeError)"

definition charCodes :: "string \<Rightarrow> bytes" where
  "charCodes s = map (\<lambda>c. of_nat (of_char c)) s"

subsubsection \<open>The operations of crypto.subtle the code calls\<close>

text \<open>
  Each follows the Web Cryptography API: the checks on the key and on the parameters,
  then the primitive.
\<close>

definition subtle_digest :: "'p runtime \<Rightarrow> hashAlgorithm \<Rightarrow> bytes \<Rightarrow> bytes" where
  "subtle_digest rt h dat = digest rt h dat"

text \<open>\<^verbatim>\<open>importKey("raw", keyData, "PBKDF2", extractable, usages)\<close>: a PBKDF2 key must not be
  extractable and may only derive.\<close>

definition subtle_importKey_PBKDF2 ::
    "bytes \<Rightarrow> bool \<Rightarrow> keyUsage list \<Rightarrow> error + cryptoKey" where
  "subtle_importKey_PBKDF2 keyData ext us =
     (if set us \<subseteq> {DeriveKey, DeriveBits} \<and> ext = False
      then Inr \<lparr>algorithm = PBKDF2, extractable = False, usages = us, material = keyData\<rparr>
      else Inl SyntaxError)"

text \<open>\<^verbatim>\<open>deriveKey({name: "PBKDF2", salt, iterations, hash}, baseKey,
  {name: "AES-GCM", length}, extractable, usages)\<close>.\<close>

definition subtle_deriveKey_PBKDF2_AES_GCM ::
    "'p runtime \<Rightarrow> bytes \<Rightarrow> nat \<Rightarrow> hashAlgorithm \<Rightarrow> cryptoKey \<Rightarrow> nat \<Rightarrow> bool \<Rightarrow> keyUsage list
       \<Rightarrow> error + cryptoKey" where
  "subtle_deriveKey_PBKDF2_AES_GCM rt slt iterations h baseKey len ext us =
     (if algorithm baseKey = PBKDF2 \<and> DeriveKey \<in> set (usages baseKey) then
        if len \<in> {128, 192, 256} \<and> 0 < iterations then
          if set us \<subseteq> {Encrypt, Decrypt, WrapKey, UnwrapKey} \<and> us \<noteq> [] then
            Inr \<lparr>algorithm = AES_GCM len, extractable = ext, usages = us,
                 material = pbkdf2 rt h (material baseKey) slt iterations len\<rparr>
          else Inl SyntaxError
        else Inl OperationError
      else Inl InvalidAccessError)"

text \<open>\<^verbatim>\<open>encrypt({name: "AES-GCM", iv}, key, data)\<close> and
  \<^verbatim>\<open>decrypt({name: "AES-GCM", iv}, key, data)\<close>. A tag that does not verify is an
  \<^verbatim>\<open>OperationError\<close>, whatever the cause.\<close>

definition isAesGcm :: "keyAlgorithm \<Rightarrow> bool" where
  "isAesGcm a = (case a of AES_GCM _ \<Rightarrow> True | PBKDF2 \<Rightarrow> False)"

definition subtle_encrypt :: "'p runtime \<Rightarrow> bytes \<Rightarrow> cryptoKey \<Rightarrow> bytes \<Rightarrow> error + bytes" where
  "subtle_encrypt rt nonce k dat =
     (if isAesGcm (algorithm k) \<and> Encrypt \<in> set (usages k)
      then Inr (aesGcmSeal rt (material k) nonce dat)
      else Inl InvalidAccessError)"

definition subtle_decrypt :: "'p runtime \<Rightarrow> bytes \<Rightarrow> cryptoKey \<Rightarrow> bytes \<Rightarrow> error + bytes" where
  "subtle_decrypt rt nonce k dat =
     (if isAesGcm (algorithm k) \<and> Decrypt \<in> set (usages k) then
        case aesGcmOpen rt (material k) nonce dat of
          None \<Rightarrow> Inl OperationError
        | Some plaintext \<Rightarrow> Inr plaintext
      else Inl InvalidAccessError)"

text \<open>\<^verbatim>\<open>exportKey("raw", key)\<close>, the one operation that hands out key bytes: refused for a
  key that is not extractable.\<close>

definition subtle_exportKey :: "cryptoKey \<Rightarrow> error + bytes" where
  "subtle_exportKey k = (if extractable k then Inr (material k) else Inl InvalidAccessError)"

subsection \<open>crypto.ts\<close>

definition PBKDF2_ITERATIONS :: nat where "PBKDF2_ITERATIONS = 100000"
definition SALT_LENGTH :: nat where "SALT_LENGTH = 16"
definition IV_LENGTH :: nat where "IV_LENGTH = 12"
definition KEY_LENGTH :: nat where "KEY_LENGTH = 256"

definition generateSalt :: "entropy \<Rightarrow> bytes \<times> entropy" where
  "generateSalt e = getRandomValues SALT_LENGTH e"

definition generateIV :: "entropy \<Rightarrow> bytes \<times> entropy" where
  "generateIV e = getRandomValues IV_LENGTH e"

definition deriveKey :: "'p runtime \<Rightarrow> ustring \<Rightarrow> bytes \<Rightarrow> error + cryptoKey" where
  "deriveKey rt password slt =
     (case subtle_importKey_PBKDF2 (textEncode rt password) False [DeriveBits, DeriveKey] of
        Inl err \<Rightarrow> Inl err
      | Inr passwordKey \<Rightarrow>
          subtle_deriveKey_PBKDF2_AES_GCM rt slt PBKDF2_ITERATIONS SHA_256 passwordKey
            KEY_LENGTH False [Encrypt, Decrypt])"

text \<open>The object \<^verbatim>\<open>{encryptedData, iv}\<close>: base64 ciphertext and hex IV.\<close>

record encrypted =
  encryptedData :: string
  iv :: string

definition encryptDrawing ::
    "'p runtime \<Rightarrow> 'p \<Rightarrow> cryptoKey \<Rightarrow> entropy \<Rightarrow> (error + encrypted) \<times> entropy" where
  "encryptDrawing rt dat k e =
     (let (ivBytes, e') = generateIV e
      in case jsonStringify rt dat of
           None \<Rightarrow> (Inl TypeError, e')
         | Some txt \<Rightarrow>
             (let plaintext = textEncode rt txt
              in case subtle_encrypt rt ivBytes k plaintext of
                   Inl err \<Rightarrow> (Inl err, e')
                 | Inr ciphertext \<Rightarrow>
                     (case fromCharCode rt ciphertext of
                        Inl err \<Rightarrow> (Inl err, e')
                      | Inr bin \<Rightarrow>
                          (Inr \<lparr>encryptedData = btoa rt bin,
                                iv = bytesToHex ivBytes\<rparr>, e'))))"

definition decryptDrawing :: "'p runtime \<Rightarrow> string \<Rightarrow> string \<Rightarrow> cryptoKey \<Rightarrow> error + 'p" where
  "decryptDrawing rt encData ivHex k =
     (case atob rt encData of
        None \<Rightarrow> Inl InvalidCharacterError
      | Some bin \<Rightarrow>
          (let ciphertext = charCodes bin;
               ivBytes = hexToBytes ivHex
           in case subtle_decrypt rt ivBytes k ciphertext of
                Inl err \<Rightarrow> Inl err
              | Inr plaintext \<Rightarrow>
                  (case jsonParse rt (textDecode rt plaintext) of
                     None \<Rightarrow> Inl SyntaxError
                   | Some dat \<Rightarrow> Inr dat)))"

definition encryptString ::
    "'p runtime \<Rightarrow> ustring \<Rightarrow> cryptoKey \<Rightarrow> entropy \<Rightarrow> (error + string) \<times> entropy" where
  "encryptString rt str k e =
     (let (ivBytes, e') = generateIV e;
          plaintext = textEncode rt str
      in case subtle_encrypt rt ivBytes k plaintext of
           Inl err \<Rightarrow> (Inl err, e')
         | Inr ciphertext \<Rightarrow>
             (let combined = ivBytes @ ciphertext
              in case fromCharCode rt combined of
                   Inl err \<Rightarrow> (Inl err, e')
                 | Inr bin \<Rightarrow> (Inr (btoa rt bin), e')))"


definition hashPassword :: "'p runtime \<Rightarrow> ustring \<Rightarrow> string" where
  "hashPassword rt password = bytesToHex (subtle_digest rt SHA_256 (textEncode rt password))"

subsection \<open>The frontend API module, vault section\<close>

text \<open>
  What the client puts on the wire. Each constructor is one route with the fields of its
  body:
  \<^item> \<open>GetVaultStatus\<close> is \<^verbatim>\<open>GET /vault/status\<close>;
  \<^item> \<open>PostVaultSetup passwordHash salt hint\<close> is \<^verbatim>\<open>POST /vault/setup\<close>;
  \<^item> \<open>PostVaultVerify password\<close> is \<^verbatim>\<open>POST /vault/verify\<close>;
  \<^item> \<open>PutVaultHint hint\<close> is \<^verbatim>\<open>PUT /vault/hint\<close>;
  \<^item> \<open>PutVaultPassword passwordHash salt\<close> is \<^verbatim>\<open>PUT /vault/password\<close>;
  \<^item> \<open>PutDrawingLock id encryptedData iv\<close> is \<^verbatim>\<open>PUT /drawings/:id/lock\<close>.
\<close>

datatype request =
    GetVaultStatus
  | PostVaultSetup string string "string option"
  | PostVaultVerify string
  | PutVaultHint string
  | PutVaultPassword string string
  | PutDrawingLock string string string

text \<open>The bodies of the answers: none that is read; a \<^verbatim>\<open>VaultVerifyResult\<close>
  \<open>VerifyData success salt\<close>; a \<^verbatim>\<open>VaultStatus\<close>
  \<open>StatusData isSetup salt hint privateDrawingsCount\<close>, its last three fields optional.\<close>

datatype response =
    NoData
  | VerifyData bool string
  | StatusData bool "string option" "string option" "nat option"

text \<open>The server and the network between: an answer, or the HTTP client's exception, and the
  server's next state. \<open>'sv\<close> is the server's state.\<close>

type_synonym 'sv http = "request \<Rightarrow> 'sv \<Rightarrow> (error + response) \<times> 'sv"

record vaultVerifyResult =
  success :: bool
  resultSalt :: string

record vaultStatus =
  statusIsSetup :: bool
  statusSalt :: "string option"
  statusHint :: "string option"
  statusCount :: "nat option"

record vaultState =
  isSetup :: bool
  isUnlocked :: bool
  isLoading :: bool
  passwordHint :: "string option"
  privateDrawingsCount :: nat

text \<open>
  Everything the provider component reads or writes. The first four fields are its own:
  the \<^verbatim>\<open>state\<close>, \<^verbatim>\<open>sessionKey\<close> and \<^verbatim>\<open>salt\<close> hooks and the \<^verbatim>\<open>autoLockTimer\<close> ref
  (the id of a timeout; ids are positive, so a set ref is truthy). The others are its
  surroundings:
  \<^item> \<open>listening\<close>: the effect's \<^verbatim>\<open>mousemove\<close>, \<^verbatim>\<open>keydown\<close> and \<^verbatim>\<open>click\<close> listeners are
    registered;
  \<^item> \<open>timeouts\<close>: the window's pending timeouts, each an id and the time it is due, in
    milliseconds; the only callback the component ever registers is \<^verbatim>\<open>lock\<close>;
  \<^item> \<open>clock\<close>: the time in milliseconds;
  \<^item> \<open>wire\<close>: the requests sent so far, oldest first;
  \<^item> \<open>console\<close>: what \<^verbatim>\<open>console.error\<close> has logged.
\<close>

record 'sv world =
  state :: vaultState
  sessionKey :: "cryptoKey option"
  salt :: "bytes option"
  autoLockTimer :: "nat option"
  listening :: bool
  timeouts :: "(nat \<times> nat) list"
  nextTimeoutId :: nat
  clock :: nat
  entropy :: entropy
  server :: 'sv
  wire :: "request list"
  console :: "(string \<times> error) list"

definition send :: "'sv http \<Rightarrow> request \<Rightarrow> 'sv world \<Rightarrow> (error + response) \<times> 'sv world" where
  "send net req w =
     (let (r, sv') = net req (server w)
      in (r, w\<lparr>server := sv', wire := wire w @ [req]\<rparr>))"

definition api_setupVault ::
    "'sv http \<Rightarrow> string \<Rightarrow> string \<Rightarrow> string option \<Rightarrow> 'sv world \<Rightarrow> (error + unit) \<times> 'sv world" where
  "api_setupVault net passwordHash saltHex hint w =
     (case send net (PostVaultSetup passwordHash saltHex hint) w of
        (Inl err, w') \<Rightarrow> (Inl err, w')
      | (Inr _, w') \<Rightarrow> (Inr (), w'))"

text \<open>\<^verbatim>\<open>response.data\<close> is read as a \<^verbatim>\<open>VaultVerifyResult\<close> unchecked, whatever its
  shape: a body without the field \<^verbatim>\<open>success\<close> is falsy at the caller's test, and its
  \<^verbatim>\<open>salt\<close>, which no caller then reads, is the body's own if it has one.\<close>

definition api_verifyVaultPassword ::
    "'sv http \<Rightarrow> string \<Rightarrow> 'sv world \<Rightarrow> (error + vaultVerifyResult) \<times> 'sv world" where
  "api_verifyVaultPassword net password w =
     (case send net (PostVaultVerify password) w of
        (Inl err, w') \<Rightarrow> (Inl err, w')
      | (Inr (VerifyData ok s), w') \<Rightarrow> (Inr \<lparr>success = ok, resultSalt = s\<rparr>, w')
      | (Inr NoData, w') \<Rightarrow> (Inr \<lparr>success = False, resultSalt = []\<rparr>, w')
      | (Inr (StatusData b s h n), w') \<Rightarrow>
          (Inr \<lparr>success = False,
                resultSalt = (case s of None \<Rightarrow> [] | Some x \<Rightarrow> x)\<rparr>, w'))"

text \<open>Likewise \<^verbatim>\<open>response.data\<close> is read as a \<^verbatim>\<open>VaultStatus\<close>: of a verify-shaped body
  the field \<^verbatim>\<open>salt\<close> is read, and the fields it does not have are undefined.\<close>

definition api_getVaultStatus ::
    "'sv http \<Rightarrow> 'sv world \<Rightarrow> (error + vaultStatus) \<times> 'sv world" where
  "api_getVaultStatus net w =
     (case send net GetVaultStatus w of
        (Inl err, w') \<Rightarrow> (Inl err, w')
      | (Inr (StatusData b s h n), w') \<Rightarrow>
          (Inr \<lparr>statusIsSetup = b, statusSalt = s, statusHint = h, statusCount = n\<rparr>, w')
      | (Inr NoData, w') \<Rightarrow>
          (Inr \<lparr>statusIsSetup = False, statusSalt = None, statusHint = None,
                statusCount = None\<rparr>, w')
      | (Inr (VerifyData ok s), w') \<Rightarrow>
          (Inr \<lparr>statusIsSetup = False, statusSalt = Some s, statusHint = None,
                statusCount = None\<rparr>, w'))"

definition api_updateVaultHint ::
    "'sv http \<Rightarrow> string \<Rightarrow> 'sv world \<Rightarrow> (error + unit) \<times> 'sv world" where
  "api_updateVaultHint net hint w =
     (case send net (PutVaultHint hint) w of
        (Inl err, w') \<Rightarrow> (Inl err, w')
      | (Inr _, w') \<Rightarrow> (Inr (), w'))"

text \<open>The parameters \<^verbatim>\<open>_oldKey\<close> and \<^verbatim>\<open>_newKey\<close> are received and not used.\<close>

definition api_changeVaultPassword ::
    "'sv http \<Rightarrow> string \<Rightarrow> string \<Rightarrow> cryptoKey \<Rightarrow> cryptoKey \<Rightarrow> 'sv world
       \<Rightarrow> (error + unit) \<times> 'sv world" where
  "api_changeVaultPassword net newPasswordHash newSalt oldKey newKey w =
     (case send net (PutVaultPassword newPasswordHash newSalt) w of
        (Inl err, w') \<Rightarrow> (Inl err, w')
      | (Inr _, w') \<Rightarrow> (Inr (), w'))"

definition api_lockDrawing ::
    "'sv http \<Rightarrow> string \<Rightarrow> string \<Rightarrow> string \<Rightarrow> 'sv world \<Rightarrow> (error + unit) \<times> 'sv world" where
  "api_lockDrawing net drawingId encData ivHex w =
     (case send net (PutDrawingLock drawingId encData ivHex) w of
        (Inl err, w') \<Rightarrow> (Inl err, w')
      | (Inr _, w') \<Rightarrow> (Inr (), w'))"

subsection \<open>VaultContext.tsx\<close>

definition AUTO_LOCK_TIMEOUT :: nat where
  "AUTO_LOCK_TIMEOUT = 15 * 60 * 1000"

definition setTimeout :: "nat \<Rightarrow> 'sv world \<Rightarrow> nat \<times> 'sv world" where
  "setTimeout delay w =
     (nextTimeoutId w,
      w\<lparr>timeouts := timeouts w @ [(nextTimeoutId w, clock w + delay)],
        nextTimeoutId := Suc (nextTimeoutId w)\<rparr>)"

definition clearTimeout :: "nat \<Rightarrow> 'sv world \<Rightarrow> 'sv world" where
  "clearTimeout t w = w\<lparr>timeouts := filter (\<lambda>p. fst p \<noteq> t) (timeouts w)\<rparr>"

definition consoleError :: "string \<Rightarrow> error \<Rightarrow> 'sv world \<Rightarrow> 'sv world" where
  "consoleError msg err w = w\<lparr>console := console w @ [(msg, err)]\<rparr>"

text \<open>
  \<^verbatim>\<open>resetAutoLockTimer\<close> is a \<^verbatim>\<open>useCallback\<close> on \<^verbatim>\<open>state.isUnlocked\<close>: the value it tests
  is the one of the render that made the callback, passed here as \<open>unlocked\<close>.
\<close>

definition resetAutoLockTimer :: "bool \<Rightarrow> 'sv world \<Rightarrow> 'sv world" where
  "resetAutoLockTimer unlocked w =
     (let w1 = (case autoLockTimer w of Some t \<Rightarrow> clearTimeout t w | None \<Rightarrow> w)
      in if unlocked
         then (let (t, w2) = setTimeout AUTO_LOCK_TIMEOUT w1 in w2\<lparr>autoLockTimer := Some t\<rparr>)
         else w1)"

text \<open>\<^verbatim>\<open>hint || null\<close>: an absent or empty hint is \<^verbatim>\<open>null\<close>.\<close>

definition orNull :: "string option \<Rightarrow> string option" where
  "orNull h = (case h of None \<Rightarrow> None | Some x \<Rightarrow> if x = [] then None else Some x)"

text \<open>\<^verbatim>\<open>status.privateDrawingsCount || 0\<close>, and the test \<^verbatim>\<open>if (status.salt)\<close>: an absent or
  empty salt is falsy.\<close>

definition orZero :: "nat option \<Rightarrow> nat" where
  "orZero n = (case n of None \<Rightarrow> 0 | Some k \<Rightarrow> k)"

definition checkVaultStatus :: "'sv http \<Rightarrow> 'sv world \<Rightarrow> 'sv world" where
  "checkVaultStatus net w =
     (let w0 = w\<lparr>state := (state w)\<lparr>isLoading := True\<rparr>\<rparr>
      in case api_getVaultStatus net w0 of
           (Inl err, w1) \<Rightarrow>
             (let w2 = consoleError ''Failed to check vault status:'' err w1
              in w2\<lparr>state := (state w2)\<lparr>isLoading := False\<rparr>\<rparr>)
         | (Inr status, w1) \<Rightarrow>
             (let w2 = w1\<lparr>state := (state w1)\<lparr>isSetup := statusIsSetup status,
                                               passwordHint := orNull (statusHint status),
                                               privateDrawingsCount := orZero (statusCount status),
                                               isLoading := False\<rparr>\<rparr>
              in case statusSalt status of
                   None \<Rightarrow> w2
                 | Some s \<Rightarrow> if s = [] then w2 else w2\<lparr>salt := Some (hexToBytes s)\<rparr>))"

definition updateHint :: "'sv http \<Rightarrow> string \<Rightarrow> 'sv world \<Rightarrow> (error + unit) \<times> 'sv world" where
  "updateHint net hint w =
     (case api_updateVaultHint net hint w of
        (Inl err, w1) \<Rightarrow> (Inl err, consoleError ''Failed to update hint:'' err w1)
      | (Inr _, w1) \<Rightarrow> (Inr (), w1\<lparr>state := (state w1)\<lparr>passwordHint := Some hint\<rparr>\<rparr>))"

definition lock :: "'sv world \<Rightarrow> 'sv world" where
  "lock w =
     (let w1 = w\<lparr>sessionKey := None\<rparr>;
          w2 = w1\<lparr>state := (state w1)\<lparr>isUnlocked := False\<rparr>\<rparr>
      in case autoLockTimer w2 of
           Some t \<Rightarrow> (clearTimeout t w2)\<lparr>autoLockTimer := None\<rparr>
         | None \<Rightarrow> w2)"

text \<open>
  The effect on \<^verbatim>\<open>[state.isUnlocked, resetAutoLockTimer]\<close>. Both dependencies change exactly
  when \<^verbatim>\<open>state.isUnlocked\<close> does. \<open>render prev w\<close> is the render that follows an update,
  \<open>prev\<close> being \<^verbatim>\<open>state.isUnlocked\<close> at the render before: when the value has changed, the
  clean-up of the old effect runs if there is one (the old value was true), then the new
  effect, which does something only when the new value is true.
\<close>

definition effectSetup :: "'sv world \<Rightarrow> 'sv world" where
  "effectSetup w = resetAutoLockTimer True (w\<lparr>listening := True\<rparr>)"

definition effectCleanup :: "'sv world \<Rightarrow> 'sv world" where
  "effectCleanup w =
     (let w1 = w\<lparr>listening := False\<rparr>
      in case autoLockTimer w1 of Some t \<Rightarrow> clearTimeout t w1 | None \<Rightarrow> w1)"

definition render :: "bool \<Rightarrow> 'sv world \<Rightarrow> 'sv world" where
  "render prev w =
     (if isUnlocked (state w) = prev then w
      else if prev then effectCleanup w
      else effectSetup w)"

definition unlock :: "'p runtime \<Rightarrow> 'sv http \<Rightarrow> ustring \<Rightarrow> 'sv world \<Rightarrow> bool \<times> 'sv world" where
  "unlock rt net password w =
     (let passwordHash = hashPassword rt password
      in case api_verifyVaultPassword net passwordHash w of
           (Inl err, w1) \<Rightarrow> (False, consoleError ''Failed to unlock vault:'' err w1)
         | (Inr result, w1) \<Rightarrow>
             if success result then
               (let saltBytes = hexToBytes (resultSalt result)
                in case deriveKey rt password saltBytes of
                     Inl err \<Rightarrow> (False, consoleError ''Failed to unlock vault:'' err w1)
                   | Inr k \<Rightarrow>
                       (let w2 = w1\<lparr>salt := Some saltBytes\<rparr>;
                            w3 = w2\<lparr>sessionKey := Some k\<rparr>;
                            w4 = w3\<lparr>state := (state w3)\<lparr>isUnlocked := True\<rparr>\<rparr>
                        in (True, resetAutoLockTimer (isUnlocked (state w)) w4)))
             else (False, w1))"

definition setupVault ::
    "'p runtime \<Rightarrow> 'sv http \<Rightarrow> ustring \<Rightarrow> string option \<Rightarrow> 'sv world \<Rightarrow> (error + unit) \<times> 'sv world" where
  "setupVault rt net password hint w =
     (let (newSalt, e') = generateSalt (entropy w);
          w0 = w\<lparr>entropy := e'\<rparr>;
          saltHex = bytesToHex newSalt;
          passwordHash = hashPassword rt password
      in case api_setupVault net passwordHash saltHex hint w0 of
           (Inl err, w1) \<Rightarrow> (Inl err, consoleError ''Failed to setup vault:'' err w1)
         | (Inr _, w1) \<Rightarrow>
             (case deriveKey rt password newSalt of
                Inl err \<Rightarrow> (Inl err, consoleError ''Failed to setup vault:'' err w1)
              | Inr k \<Rightarrow>
                  (let w2 = w1\<lparr>salt := Some newSalt\<rparr>;
                       w3 = w2\<lparr>sessionKey := Some k\<rparr>;
                       w4 = w3\<lparr>state := (state w3)\<lparr>isSetup := True, isUnlocked := True,
                                                   passwordHint := orNull hint\<rparr>\<rparr>
                   in (Inr (), resetAutoLockTimer (isUnlocked (state w)) w4))))"

definition changePassword ::
    "'p runtime \<Rightarrow> 'sv http \<Rightarrow> ustring \<Rightarrow> ustring \<Rightarrow> 'sv world \<Rightarrow> (error + unit) \<times> 'sv world" where
  "changePassword rt net oldPassword newPassword w =
     (let oldPasswordHash = hashPassword rt oldPassword
      in case api_verifyVaultPassword net oldPasswordHash w of
           (Inl err, w1) \<Rightarrow> (Inl err, consoleError ''Failed to change password:'' err w1)
         | (Inr verifyResult, w1) \<Rightarrow>
             if success verifyResult then
               (let oldSalt = hexToBytes (resultSalt verifyResult)
                in case deriveKey rt oldPassword oldSalt of
                     Inl err \<Rightarrow> (Inl err, consoleError ''Failed to change password:'' err w1)
                   | Inr oldKey \<Rightarrow>
                       (let (newSalt, e') = generateSalt (entropy w1);
                            w2 = w1\<lparr>entropy := e'\<rparr>;
                            newSaltHex = bytesToHex newSalt
                        in case deriveKey rt newPassword newSalt of
                             Inl err \<Rightarrow>
                               (Inl err, consoleError ''Failed to change password:'' err w2)
                           | Inr newKey \<Rightarrow>
                               (let newPasswordHash = hashPassword rt newPassword
                                in case api_changeVaultPassword net newPasswordHash newSaltHex
                                          oldKey newKey w2 of
                                     (Inl err, w3) \<Rightarrow>
                                       (Inl err,
                                        consoleError ''Failed to change password:'' err w3)
                                   | (Inr _, w3) \<Rightarrow>
                                       (let w4 = w3\<lparr>salt := Some newSalt\<rparr>
                                        in (Inr (), w4\<lparr>sessionKey := Some newKey\<rparr>)))))
             else (Inl (Error ''Invalid current password''),
                   consoleError ''Failed to change password:''
                     (Error ''Invalid current password'') w1))"

subsubsection \<open>What happens on the page\<close>

text \<open>
  A call from the page, followed by the render its state updates cause; an interaction the
  listeners observe; a timeout that comes due. The callback of every timeout is \<^verbatim>\<open>lock\<close>.
\<close>

definition userLock :: "'sv world \<Rightarrow> 'sv world" where
  "userLock w = render (isUnlocked (state w)) (lock w)"

definition userUnlock :: "'p runtime \<Rightarrow> 'sv http \<Rightarrow> ustring \<Rightarrow> 'sv world \<Rightarrow> bool \<times> 'sv world" where
  "userUnlock rt net password w =
     (let (ok, w') = unlock rt net password w in (ok, render (isUnlocked (state w)) w'))"

definition userSetup ::
    "'p runtime \<Rightarrow> 'sv http \<Rightarrow> ustring \<Rightarrow> string option \<Rightarrow> 'sv world \<Rightarrow> (error + unit) \<times> 'sv world" where
  "userSetup rt net password hint w =
     (let (r, w') = setupVault rt net password hint w in (r, render (isUnlocked (state w)) w'))"

definition userActivity :: "'sv world \<Rightarrow> 'sv world" where
  "userActivity w = (if listening w then resetAutoLockTimer True w else w)"

definition fire :: "nat \<Rightarrow> 'sv world \<Rightarrow> 'sv world" where
  "fire t w =
     (if t \<in> set (map fst (timeouts w))
      then render (isUnlocked (state w)) (lock (clearTimeout t w))
      else w)"

text \<open>\<open>elapse ms\<close>: the clock advances by \<open>ms\<close> with no interaction, and the timeouts then
  due run, oldest first.\<close>

definition elapse :: "nat \<Rightarrow> 'sv world \<Rightarrow> 'sv world" where
  "elapse ms w =
     (let w1 = w\<lparr>clock := clock w + ms\<rparr>;
          due = map fst (filter (\<lambda>p. snd p \<le> clock w1) (timeouts w1))
      in fold fire due w1)"

subsection \<open>UnlockVaultModal.tsx\<close>

text \<open>
  What the modal shows after a submit: nothing, \<^verbatim>\<open>'Incorrect password'\<close>, or the message of
  an exception it caught (\<^verbatim>\<open>'Failed to unlock vault'\<close> for one that is no \<^verbatim>\<open>Error\<close>).
\<close>

datatype modalError = NoError | IncorrectPassword | Failure error

record modal =
  modalPassword :: ustring
  modalError :: modalError
  modalIsLoading :: bool
  modalOpen :: bool

text \<open>
  \<^verbatim>\<open>handleSubmit\<close>, with the prop \<^verbatim>\<open>onUnlock\<close> as a parameter: a promise of a boolean, which
  may reject.
\<close>

definition handleSubmit ::
    "(ustring \<Rightarrow> 'sv world \<Rightarrow> (error + bool) \<times> 'sv world) \<Rightarrow> modal \<Rightarrow> 'sv world
       \<Rightarrow> modal \<times> 'sv world" where
  "handleSubmit onUnlock m w =
     (if modalPassword m = [] then (m, w)
      else
        (let m1 = m\<lparr>modalIsLoading := True\<rparr>;
             m2 = m1\<lparr>modalError := NoError\<rparr>
         in case onUnlock (modalPassword m2) w of
              (Inr ok, w') \<Rightarrow>
                if ok
                then (m2\<lparr>modalPassword := [], modalOpen := False, modalIsLoading := False\<rparr>, w')
                else (m2\<lparr>modalError := IncorrectPassword, modalIsLoading := False\<rparr>, w')
            | (Inl err, w') \<Rightarrow>
                (m2\<lparr>modalError := Failure err, modalIsLoading := False\<rparr>, w')))"

text \<open>The pages pass \<^verbatim>\<open>vault.unlock\<close> as \<^verbatim>\<open>onUnlock\<close>: a promise that resolves, whatever
  happened.\<close>

definition submitUnlock ::
    "'p runtime \<Rightarrow> 'sv http \<Rightarrow> modal \<Rightarrow> 'sv world \<Rightarrow> modal \<times> 'sv world" where
  "submitUnlock rt net m w =
     handleSubmit (\<lambda>password w0. case userUnlock rt net password w0 of (ok, w') \<Rightarrow> (Inr ok, w'))
       m w"

text \<open>The component as mounted: the initial values of its hooks, nothing pending.\<close>

definition initialWorld :: "entropy \<Rightarrow> 'sv \<Rightarrow> 'sv world" where
  "initialWorld e sv =
     \<lparr>state = \<lparr>isSetup = False, isUnlocked = False, isLoading = True,
                passwordHint = None, privateDrawingsCount = 0\<rparr>,
      sessionKey = None, salt = None, autoLockTimer = None,
      listening = False, timeouts = [], nextTimeoutId = 1, clock = 0,
      entropy = e, server = sv, wire = [], console = []\<rparr>"

datatype event =
    CheckStatus
  | UpdateHint string
  | Lock
  | Unlock ustring
  | Setup ustring "string option"
  | ChangePassword ustring ustring
  | Activity
  | Elapse nat

definition step :: "'p runtime \<Rightarrow> 'sv http \<Rightarrow> event \<Rightarrow> 'sv world \<Rightarrow> 'sv world" where
  "step rt net ev w =
     (case ev of
        CheckStatus \<Rightarrow> checkVaultStatus net w
      | UpdateHint hint \<Rightarrow> snd (updateHint net hint w)
      | Lock \<Rightarrow> userLock w
      | Unlock password \<Rightarrow> snd (userUnlock rt net password w)
      | Setup password hint \<Rightarrow> snd (userSetup rt net password hint w)
      | ChangePassword oldPassword newPassword \<Rightarrow>
          snd (changePassword rt net oldPassword newPassword w)
      | Activity \<Rightarrow> userActivity w
      | Elapse ms \<Rightarrow> elapse ms w)"

definition run :: "'p runtime \<Rightarrow> 'sv http \<Rightarrow> event list \<Rightarrow> 'sv world \<Rightarrow> 'sv world" where
  "run rt net evs w = fold (step rt net) evs w"

text \<open>The timer discipline: the listeners are registered exactly while unlocked; while
  unlocked one timeout is pending, the one the ref names; while locked none is.\<close>

definition coherent :: "'sv world \<Rightarrow> bool" where
  "coherent w =
     (listening w = isUnlocked (state w) \<and>
      (if isUnlocked (state w)
       then (case autoLockTimer w of None \<Rightarrow> False | Some t \<Rightarrow> map fst (timeouts w) = [t])
       else timeouts w = []))"

text \<open>Every pending timeout is the one the ref names.\<close>

definition owned :: "'sv world \<Rightarrow> bool" where
  "owned w = (\<forall>p \<in> set (timeouts w). autoLockTimer w = Some (fst p))"

subsection \<open>Assumptions on the platform\<close>

text \<open>
  What theorems below ask of the platform's primitives, each a law of the real ones:
  \<^item> AES-GCM opens what it sealed, under the same key and nonce;
  \<^item> \<^verbatim>\<open>atob\<close> undoes \<^verbatim>\<open>btoa\<close>;
  \<^item> PBKDF2 returns as many bits as asked for, and SHA-256 returns 32 bytes.
  \<^verbatim>\<open>TextDecoder\<close> does not undo \<^verbatim>\<open>TextEncoder\<close> on every string, nor \<^verbatim>\<open>JSON.parse\<close>
  \<^verbatim>\<open>JSON.stringify\<close> on every value: where a theorem needs that of one input, it says so
  of that input.
\<close>

definition aeadCorrect :: "'p runtime \<Rightarrow> bool" where
  "aeadCorrect rt = (\<forall>k n p. aesGcmOpen rt k n (aesGcmSeal rt k n p) = Some p)"

definition base64Correct :: "'p runtime \<Rightarrow> bool" where
  "base64Correct rt = (\<forall>s. atob rt (btoa rt s) = Some s)"

definition kdfLength :: "'p runtime \<Rightarrow> bool" where
  "kdfLength rt = (\<forall>h pw s n bits. length (pbkdf2 rt h pw s n bits) = bits div 8)"


text \<open>
  A small platform to run the code on.
  \<^item> The hash is 32 copies of the sum of the bytes, so it loses its input as a hash does.
  \<^item> The key derivation pads and cuts password and salt.
  \<^item> The cipher writes key and nonce in front of the plaintext and checks them on opening.
  \<^item> The text encoding writes each code unit as two bytes; decoding drops one leading
    U+FEFF, as \<^verbatim>\<open>TextDecoder\<close> does.
  \<^item> Base64 and JSON are the identity: payloads are JSON texts.
  \<^item> A call takes at most 120000 arguments.
\<close>

definition demoTextEncode :: "ustring \<Rightarrow> bytes" where
  "demoTextEncode s = concat (map (\<lambda>u. [of_nat (unat u div 256), of_nat (unat u mod 256)]) s)"

fun demoUnits :: "bytes \<Rightarrow> ustring" where
  "demoUnits (h # l # rest) = of_nat (unat h * 256 + unat l) # demoUnits rest"
| "demoUnits rest = []"

definition demoTextDecode :: "bytes \<Rightarrow> ustring" where
  "demoTextDecode bs =
     (case demoUnits bs of
        [] \<Rightarrow> []
      | u # us \<Rightarrow> if u = 0xFEFF then us else u # us)"

definition demoRuntime :: "ustring runtime" where
  "demoRuntime =
     \<lparr>digest = (\<lambda>h dat. replicate 32 (sum_list dat)),
      pbkdf2 = (\<lambda>h pw s n bits. take (bits div 8) (pw @ s @ replicate (bits div 8) 0)),
      aesGcmSeal = (\<lambda>k n p. k @ n @ p),
      aesGcmOpen = (\<lambda>k n c. if take (length k + length n) c = k @ n
                              then Some (drop (length k + length n) c) else None),
      textEncode = demoTextEncode,
      textDecode = demoTextDecode,
      btoa = (\<lambda>s. s),
      atob = Some,
      jsonStringify = Some,
      jsonParse = Some,
      maxArguments = 120000\<rparr>"

definition demoEntropy :: entropy where
  "demoEntropy = (\<lambda>i. of_nat (7 * i + 3))"

subsection \<open>The server's vault store\<close>

text \<open>
  Modelled from the spec: the backend's vault and drawing routes are not among the sources.
  The server keeps one vault record (the verification hash, the client's salt, the hint)
  and the encrypted records, one per id. The status route reports whether the record exists,
  with its salt, its hint and the number of encrypted records. Setup stores the digest
  through its slow hash with the salt and hint; the hint route replaces the hint; verification compares the digest's hash with the stored one and returns
  the salt on success only; the password route replaces hash and salt and nothing else;
  the lock route stores a record's ciphertext and IV. Without a vault record only setup
  is answered.
\<close>

record serverStore =
  vaultRecord :: "(string \<times> string \<times> string option) option"
  encryptedRecords :: "(string \<times> encrypted) list"

definition emptyStore :: serverStore where
  "emptyStore = \<lparr>vaultRecord = None, encryptedRecords = []\<rparr>"

definition specServer :: "(string \<Rightarrow> string) \<Rightarrow> serverStore http" where
  "specServer slowHash req sv =
     (case req of
        GetVaultStatus \<Rightarrow>
          (case vaultRecord sv of
             None \<Rightarrow> (Inr (StatusData False None None (Some 0)), sv)
           | Some (vh, s, hint) \<Rightarrow>
               (Inr (StatusData True (Some s) hint (Some (length (encryptedRecords sv)))), sv))
      | PutVaultHint hint \<Rightarrow>
          (case vaultRecord sv of
             None \<Rightarrow> (Inl (HttpError (Some 404)), sv)
           | Some (vh, s, hint0) \<Rightarrow> (Inr NoData, sv\<lparr>vaultRecord := Some (vh, s, Some hint)\<rparr>))
      | PostVaultSetup h s hint \<Rightarrow>
          (Inr NoData, sv\<lparr>vaultRecord := Some (slowHash h, s, hint)\<rparr>)
      | PostVaultVerify h \<Rightarrow>
          (case vaultRecord sv of
             None \<Rightarrow> (Inl (HttpError (Some 404)), sv)
           | Some (vh, s, hint) \<Rightarrow>
               if slowHash h = vh then (Inr (VerifyData True s), sv)
               else (Inr (VerifyData False []), sv))
      | PutVaultPassword h s \<Rightarrow>
          (case vaultRecord sv of
             None \<Rightarrow> (Inl (HttpError (Some 404)), sv)
           | Some (vh, s0, hint) \<Rightarrow>
               (Inr NoData, sv\<lparr>vaultRecord := Some (slowHash h, s, hint)\<rparr>))
      | PutDrawingLock i c n \<Rightarrow>
          (case vaultRecord sv of
             None \<Rightarrow> (Inl (HttpError (Some 404)), sv)
           | Some v \<Rightarrow>
               (Inr NoData,
                sv\<lparr>encryptedRecords :=
                     (i, \<lparr>encryptedData = c, iv = n\<rparr>) #
                     filter (\<lambda>p. fst p \<noteq> i) (encryptedRecords sv)\<rparr>)))"

text \<open>A network that is down, and a server that rejects every digest.\<close>

definition netDown :: "'sv http" where
  "netDown req sv = (Inl (HttpError None), sv)"

definition netReject :: "'sv http" where
  "netReject req sv = (Inr (VerifyData False []), sv)"

text \<open>The demo vault: the component is mounted, which asks for the status, and the vault
  is set up with the password of the spec's scenario. It is unlocked, one timeout
  pending.\<close>

definition demoNet :: "serverStore http" where
  "demoNet = specServer (\<lambda>h. h)"

definition demoUnlocked :: "serverStore world" where
  "demoUnlocked =
     snd (userSetup demoRuntime demoNet (ustr ''Correct-Horse1'') (Some ''stable animal'')
            (checkVaultStatus demoNet (initialWorld demoEntropy emptyStore)))"

section \<open>Hex encoding\<close>

lemma lt16_cases: "d < 16 \<Longrightarrow> d \<in> {0, 1, 2, 3, 4, 5, 6, 7, 8, 9, 10, 11, 12, 13, 14, 15 :: nat}"
  by simp arith

lemma digitValue_hexDigit: "d < 16 \<Longrightarrow> digitValue (hexDigit d) = Some d"
  using lt16_cases [of d] by (auto simp: digitValue_def hexDigit_def)

lemma isWhiteSpace_hexDigit: "d < 16 \<Longrightarrow> \<not> isWhiteSpace (hexDigit d)"
  using lt16_cases [of d] by (auto simp: isWhiteSpace_def hexDigit_def)

lemma hexDigit_plain:
  "d < 16 \<Longrightarrow> hexDigit d \<notin> {CHR ''+'', CHR ''-'', CHR ''x'', CHR ''X''}"
  using lt16_cases [of d] by (auto simp: hexDigit_def)

text \<open>Two hex digits parse to the number they write: no white space, sign or prefix is
  seen in them.\<close>

lemma parseInt16_two_digits:
  assumes "a < 16" and "b < 16"
  shows "parseInt16 [hexDigit a, hexDigit b] = Some (int (16 * a + b))"
  using assms isWhiteSpace_hexDigit [of a] hexDigit_plain [of a] hexDigit_plain [of b]
    digitValue_hexDigit [of a] digitValue_hexDigit [of b]
  by (simp add: parseInt16_def isRadixDigit_def radixValue_def)

text \<open>A byte is written as exactly two digits: the padding supplies the leading zero.\<close>

lemma byte_hex:
  "padStart 2 CHR ''0'' (toString16 (unat (b :: byte))) =
     [hexDigit (unat b div 16), hexDigit (unat b mod 16)]"
proof -
  have lt: "unat b < 256"
    using unsigned_less [of b] by simp
  show ?thesis
  proof (cases "unat b < 16")
    case True
    then show ?thesis
      by (simp add: toString16.simps padStart_def hexDigit_def)
  next
    case False
    with lt have "unat b div 16 < 16" by simp
    with False show ?thesis
      by (simp add: toString16.simps [of "unat b"] toString16.simps [of "unat b div 16"]
          padStart_def)
  qed
qed

lemma bytesToHex_Cons:
  "bytesToHex (b # bs) = hexDigit (unat b div 16) # hexDigit (unat b mod 16) # bytesToHex bs"
  using byte_hex [of b] by (simp add: bytesToHex_def)

lemma hexToBytes_Cons2:
  "hexToBytes (h1 # h2 # rest) = toUint8 (parseInt16 [h1, h2]) # hexToBytes rest"
proof -
  have "[0 ..< Suc (length rest div 2)] = 0 # map Suc [0 ..< length rest div 2]"
    by (simp add: upt_conv_Cons map_Suc_upt del: upt_Suc)
  then show ?thesis
    by (simp add: hexToBytes_def substr_def comp_def del: upt_Suc)
qed

lemma hexToBytes_byte:
  "toUint8 (parseInt16 [hexDigit (unat (b :: byte) div 16), hexDigit (unat b mod 16)]) = b"
proof -
  have "unat b < 256"
    using unsigned_less [of b] by simp
  then have "unat b div 16 < 16" and "unat b mod 16 < 16"
    by simp_all
  then have "parseInt16 [hexDigit (unat b div 16), hexDigit (unat b mod 16)] =
      Some (int (16 * (unat b div 16) + unat b mod 16))"
    by (rule parseInt16_two_digits)
  then show ?thesis
    by (simp add: toUint8_def)
qed

lemma bytesToHex_Nil: "bytesToHex [] = []"
  by (simp add: bytesToHex_def)

lemma hexToBytes_Nil: "hexToBytes [] = []"
  by (simp add: hexToBytes_def)

lemma hexToBytes_bytesToHex: "hexToBytes (bytesToHex bs) = bs"
proof (induction bs)
  case Nil
  show ?case by (simp add: bytesToHex_Nil hexToBytes_Nil)
next
  case (Cons b bs)
  then show ?case
    by (simp add: bytesToHex_Cons hexToBytes_Cons2 hexToBytes_byte)
qed

lemma length_bytesToHex: "length (bytesToHex bs) = 2 * length bs"
  by (induction bs) (simp_all add: bytesToHex_Nil bytesToHex_Cons)

lemma hexToBytes_snoc: "hexToBytes (bytesToHex bs @ [c]) = bs"
proof (induction bs)
  case Nil
  show ?case by (simp add: bytesToHex_Nil hexToBytes_def)
next
  case (Cons b bs)
  then show ?case
    by (simp add: bytesToHex_Cons hexToBytes_Cons2 hexToBytes_byte)
qed

lemma lower_hex_digit:
  assumes "c \<in> set ''0123456789abcdef''"
  shows "\<exists>d < 16. c = hexDigit d"
proof -
  from assms obtain d where "d < length ''0123456789abcdef''" and "''0123456789abcdef'' ! d = c"
    by (auto simp only: in_set_conv_nth)
  then have "d < 16" and "c = hexDigit d"
    by (simp_all add: hexDigit_def)
  then show ?thesis by blast
qed

lemma bytesToHex_two_digits:
  assumes "a < 16" and "b < 16"
  shows "bytesToHex [toUint8 (parseInt16 [hexDigit a, hexDigit b])] = [hexDigit a, hexDigit b]"
proof -
  let ?w = "word_of_int (int (16 * a + b)) :: byte"
  have lt: "16 * a + b < 256" using assms by simp
  have "unat (of_nat (16 * a + b) :: byte) = (16 * a + b) mod 2 ^ LENGTH(8)"
    by (rule unat_of_nat)
  with lt have u: "unat ?w = 16 * a + b"
    by simp
  have "unat ?w div 16 = a" and "unat ?w mod 16 = b"
    unfolding u using assms by simp_all
  then show ?thesis
    using bytesToHex_Cons [of ?w "[]"]
    by (simp add: parseInt16_two_digits [OF assms] toUint8_def bytesToHex_Nil)
qed

lemma bytesToHex_hexToBytes:
  "even (length h) \<Longrightarrow> set h \<subseteq> set ''0123456789abcdef'' \<Longrightarrow> bytesToHex (hexToBytes h) = h"
proof (induction h rule: induct_list012)
  case 1
  show ?case by (simp add: hexToBytes_Nil bytesToHex_Nil)
next
  case (2 x)
  then show ?case by simp
next
  case (3 x y zs)
  from 3(3,4) have ev: "even (length zs)" and sub: "set zs \<subseteq> set ''0123456789abcdef''"
    and x: "x \<in> set ''0123456789abcdef''" and y: "y \<in> set ''0123456789abcdef''"
    by simp_all
  from x obtain a where a: "a < 16" "x = hexDigit a" using lower_hex_digit by blast
  from y obtain b where b: "b < 16" "y = hexDigit b" using lower_hex_digit by blast
  have "bytesToHex (hexToBytes (x # y # zs)) =
      bytesToHex ([toUint8 (parseInt16 [x, y])] @ hexToBytes zs)"
    by (simp add: hexToBytes_Cons2)
  also have "\<dots> = bytesToHex [toUint8 (parseInt16 [x, y])] @ bytesToHex (hexToBytes zs)"
    by (simp add: bytesToHex_def)
  also have "\<dots> = [x, y] @ zs"
    using bytesToHex_two_digits [OF a(1) b(1)] 3(1) [OF ev sub] a(2) b(2) by simp
  finally show ?case by simp
qed

text \<open>
  C10. For every byte array \<open>bs\<close>, \<open>hexToBytes (bytesToHex bs)\<close> is \<open>bs\<close>: same length,
  same contents. The hex string has two characters per byte. One more character after it
  (an odd length) is dropped without an error. In the other direction, \<open>bytesToHex\<close>
  restores a string \<open>h\<close> from \<open>hexToBytes h\<close> when \<open>h\<close> has even length and only lowercase
  hex digits.
\<close>

theorem C10_hex_roundtrip:
  "hexToBytes (bytesToHex bs) = bs \<and>
   length (hexToBytes (bytesToHex bs)) = length bs \<and>
   length (bytesToHex bs) = 2 * length bs \<and>
   hexToBytes (bytesToHex bs @ [c]) = bs \<and>
   (even (length h) \<and> set h \<subseteq> set ''0123456789abcdef'' \<longrightarrow> bytesToHex (hexToBytes h) = h)"
  by (simp add: hexToBytes_bytesToHex length_bytesToHex hexToBytes_snoc bytesToHex_hexToBytes)

text \<open>An uppercase string comes back in lowercase.\<close>

lemma bytesToHex_hexToBytes_upper: "bytesToHex (hexToBytes ''AB'') = ''ab''"
  by (simp add: hexToBytes_Cons2 hexToBytes_Nil parseInt16_def isWhiteSpace_def isRadixDigit_def
      digitValue_def radixValue_def toUint8_def bytesToHex_Cons bytesToHex_Nil hexDigit_def)

theorem C10_hex_roundtrip_witness:
  "hexToBytes (bytesToHex [0, 10, 255]) = [0, 10, 255] \<and>
   hexToBytes (bytesToHex [0, 10, 255] @ ''f'') = [0, 10, 255] \<and>
   bytesToHex (hexToBytes ''0a1bff'') = ''0a1bff''"
  using C10_hex_roundtrip [of "[0, 10, 255]" "CHR ''f''" "''0a1bff''"]
  by simp


section \<open>Key derivation\<close>

text \<open>With the constants of crypto.ts every check of the platform passes, so derivation
  never fails, and the key it returns is this one.\<close>

lemma deriveKey_eq:
  "deriveKey rt password slt =
     Inr \<lparr>algorithm = AES_GCM KEY_LENGTH, extractable = False, usages = [Encrypt, Decrypt],
          material = pbkdf2 rt SHA_256 (textEncode rt password) slt PBKDF2_ITERATIONS KEY_LENGTH\<rparr>"
  by (simp add: deriveKey_def subtle_importKey_PBKDF2_def subtle_deriveKey_PBKDF2_AES_GCM_def
      PBKDF2_ITERATIONS_def KEY_LENGTH_def)

lemma deriveKey_usable:
  assumes "deriveKey rt password slt = Inr k"
  shows "subtle_encrypt rt n k dat = Inr (aesGcmSeal rt (material k) n dat)"
    and "subtle_decrypt rt n k dat =
      (case aesGcmOpen rt (material k) n dat of None \<Rightarrow> Inl OperationError | Some p \<Rightarrow> Inr p)"
  using assms by (auto simp: deriveKey_eq subtle_encrypt_def subtle_decrypt_def isAesGcm_def)

subsection \<open>The demo platform\<close>

lemma charCodes_binaryString: "charCodes (binaryString bs) = bs"
proof -
  have "of_nat (of_char (char_of (unat b))) = b" for b :: byte
  proof -
    have "unat b < 256"
      using unsigned_less [of b] by simp
    then show ?thesis by simp
  qed
  then show ?thesis
    by (simp add: charCodes_def binaryString_def comp_def)
qed

lemma demoUnits_demoTextEncode: "demoUnits (demoTextEncode s) = s"
proof (induction s)
  case Nil
  show ?case by (simp add: demoTextEncode_def)
next
  case (Cons u s)
  have lt: "unat u < 65536"
    using unsigned_less [of u] by simp
  then have hi: "unat u div 256 < 256" by simp
  have "unat (of_nat (unat u div 256) :: byte) = (unat u div 256) mod 2 ^ LENGTH(8)"
    by (rule unat_of_nat)
  with hi have h: "unat (of_nat (unat u div 256) :: byte) = unat u div 256" by simp
  have "unat (of_nat (unat u mod 256) :: byte) = (unat u mod 256) mod 2 ^ LENGTH(8)"
    by (rule unat_of_nat)
  then have l: "unat (of_nat (unat u mod 256) :: byte) = unat u mod 256" by simp
  have "(of_nat (unat (of_nat (unat u div 256) :: byte) * 256 +
      unat (of_nat (unat u mod 256) :: byte)) :: 16 word) = of_nat (unat u)"
    unfolding h l by simp
  then have "(of_nat (unat (of_nat (unat u div 256) :: byte) * 256 +
      unat (of_nat (unat u mod 256) :: byte)) :: 16 word) = u"
    by simp
  with Cons show ?case
    by (simp add: demoTextEncode_def)
qed

text \<open>The demo encoding is undone by the decoding on every string that does not start
  with U+FEFF.\<close>

lemma demo_text_roundtrip:
  assumes "s = [] \<or> hd s \<noteq> 0xFEFF"
  shows "textDecode demoRuntime (textEncode demoRuntime s) = s"
  using assms
  by (cases s) (simp_all add: demoRuntime_def demoTextDecode_def demoUnits_demoTextEncode)

lemma length_demoTextEncode: "length (demoTextEncode s) = 2 * length s"
  by (induction s) (simp_all add: demoTextEncode_def)

lemma demo_aeadCorrect: "aeadCorrect demoRuntime"
  by (simp add: aeadCorrect_def demoRuntime_def)

lemma demo_base64Correct: "base64Correct demoRuntime"
  by (simp add: base64Correct_def demoRuntime_def)

lemma demo_kdfLength: "kdfLength demoRuntime"
  by (auto simp: kdfLength_def demoRuntime_def min_def)


text \<open>The demo cipher rejects under one key what it sealed under another of the same
  length.\<close>

lemma demo_cipher_rejects:
  assumes "length k = length k'" and "k \<noteq> k'"
  shows "aesGcmOpen demoRuntime k' n (aesGcmSeal demoRuntime k n p) = None"
  using assms by (auto simp: demoRuntime_def)

text \<open>
  C5. \<open>deriveKey\<close> is a function of the password and the salt alone: it reads neither the
  random source nor the network, always returns, and its key is the output of PBKDF2 with
  SHA-256 on the encoded password and the salt, at \<open>PBKDF2_ITERATIONS\<close> = 100000
  iterations, asked for \<open>KEY_LENGTH\<close> = 256 bits, as an AES-GCM key of length 256. Two
  calls on the same inputs return the same key, the one this equation names. When PBKDF2
  returns the bits it is asked for, the key has 256 bits.
\<close>

theorem C5_deriveKey:
  "\<exists>k. deriveKey rt password slt = Inr k \<and>
        algorithm k = AES_GCM 256 \<and>
        material k = pbkdf2 rt SHA_256 (textEncode rt password) slt PBKDF2_ITERATIONS KEY_LENGTH \<and>
        100000 \<le> PBKDF2_ITERATIONS \<and> KEY_LENGTH = 256 \<and>
        (kdfLength rt \<longrightarrow> length (material k) * 8 = 256)"
  by (simp add: deriveKey_eq kdfLength_def) (simp add: KEY_LENGTH_def PBKDF2_ITERATIONS_def)

theorem C5_deriveKey_witness:
  "\<exists>k. deriveKey demoRuntime (ustr ''Correct-Horse1'') [1, 2, 3] = Inr k \<and>
        algorithm k = AES_GCM 256 \<and> length (material k) * 8 = 256"
  using C5_deriveKey [of demoRuntime "ustr ''Correct-Horse1''" "[1, 2, 3]"] demo_kdfLength
  by blast

text \<open>
  C8. For every password and salt the key \<open>deriveKey\<close> returns is not extractable, its
  usages are exactly encrypt and decrypt, and the platform's export of it is refused.
\<close>

theorem C8_deriveKey_not_extractable:
  "\<exists>k. deriveKey rt password slt = Inr k \<and>
        extractable k = False \<and>
        set (usages k) = {Encrypt, Decrypt} \<and> distinct (usages k) \<and>
        subtle_exportKey k = Inl InvalidAccessError"
  by (simp add: deriveKey_eq subtle_exportKey_def)

section \<open>Sealing and opening\<close>

lemma length_generateIV: "length (fst (generateIV e)) = IV_LENGTH"
  by (simp add: generateIV_def getRandomValues_def)

lemma encryptDrawing_eq:
  assumes "deriveKey rt password slt = Inr k"
    and "jsonStringify rt dat = Some txt"
    and "length (aesGcmSeal rt (material k) (fst (generateIV e)) (textEncode rt txt))
           \<le> maxArguments rt"
  shows "encryptDrawing rt dat k e =
     (Inr \<lparr>encryptedData = btoa rt (binaryString (aesGcmSeal rt (material k) (fst (generateIV e))
              (textEncode rt txt))),
           iv = bytesToHex (fst (generateIV e))\<rparr>, snd (generateIV e))"
  using assms(2,3)
  by (simp add: encryptDrawing_def deriveKey_usable [OF assms(1)] fromCharCode_def split_def
      Let_def)


text \<open>Above the engine's limit on arguments both fail, whatever the key and the payload.\<close>

lemma encryptDrawing_too_long:
  assumes "deriveKey rt password slt = Inr k"
    and "jsonStringify rt dat = Some txt"
    and "maxArguments rt
           < length (aesGcmSeal rt (material k) (fst (generateIV e)) (textEncode rt txt))"
  shows "fst (encryptDrawing rt dat k e) = Inl RangeError"
  using assms(2,3)
  by (simp add: encryptDrawing_def deriveKey_usable [OF assms(1)] fromCharCode_def split_def
      Let_def)

lemma encryptString_too_long:
  assumes "deriveKey rt password slt = Inr k"
    and "maxArguments rt
           < IV_LENGTH + length (aesGcmSeal rt (material k) (fst (generateIV e)) (textEncode rt str))"
  shows "fst (encryptString rt str k e) = Inl RangeError"
  using assms(2)
  by (simp add: encryptString_def deriveKey_usable [OF assms(1)] fromCharCode_def split_def
      Let_def length_generateIV)

lemma decryptDrawing_sealed:
  assumes "aeadCorrect rt" and "base64Correct rt"
    and k: "deriveKey rt password slt = Inr k"
    and "jsonParse rt (textDecode rt (textEncode rt txt)) = Some dat"
  shows "decryptDrawing rt
      (btoa rt (binaryString (aesGcmSeal rt (material k) n (textEncode rt txt))))
      (bytesToHex n) k = Inr dat"
  using assms(1,2,4)
  by (simp add: decryptDrawing_def deriveKey_usable [OF k] charCodes_binaryString
      hexToBytes_bytesToHex aeadCorrect_def base64Correct_def)



lemma demo_material_length:
  assumes "deriveKey demoRuntime password slt = Inr k"
  shows "length (material k) = 32"
  using assms demo_kdfLength by (auto simp: deriveKey_eq kdfLength_def KEY_LENGTH_def)

lemma demo_seal_length:
  "length (aesGcmSeal demoRuntime m n (textEncode demoRuntime s)) =
     length m + length n + 2 * length s"
  by (simp add: demoRuntime_def length_demoTextEncode)

lemma demo_maxArguments: "maxArguments demoRuntime = 120000"
  by (simp add: demoRuntime_def)

lemma demo_json: "jsonStringify demoRuntime p = Some p" "jsonParse demoRuntime p = Some p"
  by (simp_all add: demoRuntime_def)

lemma hd_ustr: "hd (ustr (c # cs)) \<noteq> 0xFEFF"
proof -
  have lt: "(of_char c :: nat) < 256" by simp
  have "(of_char c :: nat) < 65536"
    by (rule less_trans [OF lt]) simp
  then have "(of_char c :: nat) mod 65536 = of_char c"
    by (rule mod_less)
  then have "unat (of_nat (of_char c) :: 16 word) = of_char c"
    by (simp add: unat_of_nat)
  with lt have "unat (of_nat (of_char c) :: 16 word) < 256" by (simp only:)
  then have "(of_nat (of_char c) :: 16 word) \<noteq> 0xFEFF" by auto
  then show ?thesis by (simp add: ustr_def)
qed

lemma demo_ustr_roundtrip:
  "textDecode demoRuntime (textEncode demoRuntime (ustr s)) = ustr s"
proof (cases s)
  case Nil
  then show ?thesis by (simp add: demo_text_roundtrip ustr_def)
next
  case (Cons c cs)
  then show ?thesis using hd_ustr [of c cs] by (simp add: demo_text_roundtrip)
qed

lemma length_ustr: "length (ustr s) = length s"
  by (simp add: ustr_def)



text \<open>Above the limit on arguments nothing is encrypted: a string or a drawing of a million
  code units makes \<^verbatim>\<open>String.fromCharCode\<close> throw.\<close>

lemma large_payload_RangeError:
  "\<exists>k. deriveKey demoRuntime (ustr ''Correct-Horse1'') [1, 2, 3] = Inr k \<and>
     fst (encryptString demoRuntime (replicate 1000000 0x61) k demoEntropy) = Inl RangeError \<and>
     fst (encryptDrawing demoRuntime (replicate 1000000 0x61) k demoEntropy) = Inl RangeError"
proof -
  obtain k where k: "deriveKey demoRuntime (ustr ''Correct-Horse1'') [1, 2, 3] = Inr k"
    by (simp add: deriveKey_eq)
  let ?n = "fst (generateIV demoEntropy)"
  have big1: "maxArguments demoRuntime < IV_LENGTH + length (aesGcmSeal demoRuntime (material k) ?n
      (textEncode demoRuntime (replicate 1000000 0x61)))"
    by (simp add: demo_seal_length demo_maxArguments)
  have big2: "maxArguments demoRuntime < length (aesGcmSeal demoRuntime (material k) ?n
      (textEncode demoRuntime (replicate 1000000 0x61)))"
    by (simp add: demo_seal_length demo_maxArguments)
  have B: "fst (encryptString demoRuntime (replicate 1000000 0x61) k demoEntropy) = Inl RangeError"
    by (rule encryptString_too_long [OF k big1])
  have C: "fst (encryptDrawing demoRuntime (replicate 1000000 0x61) k demoEntropy) = Inl RangeError"
    by (rule encryptDrawing_too_long [OF k demo_json(1) big2])
  from k B C show ?thesis
    by simp
qed

section \<open>The vault session\<close>

subsection \<open>What each call does, by the server's answer\<close>

lemma send_eq:
  "send net req w =
     (fst (net req (server w)), w\<lparr>server := snd (net req (server w)), wire := wire w @ [req]\<rparr>)"
  by (simp add: send_def split_def Let_def)

lemma unlock_failure:
  assumes "\<forall>s. fst (net (PostVaultVerify (hashPassword rt password)) (server w)) \<noteq> Inr (VerifyData True s)"
  shows "unlock rt net password w =
     (False, w\<lparr>server := snd (net (PostVaultVerify (hashPassword rt password)) (server w)),
               wire := wire w @ [PostVaultVerify (hashPassword rt password)],
               console := console w @
                 (case fst (net (PostVaultVerify (hashPassword rt password)) (server w)) of
                    Inl err \<Rightarrow> [(''Failed to unlock vault:'', err)] | Inr resp \<Rightarrow> [])\<rparr>)"
proof (cases "fst (net (PostVaultVerify (hashPassword rt password)) (server w))")
  case (Inl err)
  then show ?thesis
    by (simp add: unlock_def api_verifyVaultPassword_def send_eq consoleError_def Let_def)
next
  case (Inr resp)
  with assms show ?thesis
    by (cases resp) (simp_all add: unlock_def api_verifyVaultPassword_def send_eq Let_def)
qed

lemma unlock_success:
  assumes "fst (net (PostVaultVerify (hashPassword rt password)) (server w)) = Inr (VerifyData True s)"
    and "deriveKey rt password (hexToBytes s) = Inr k"
  shows "unlock rt net password w =
     (True, resetAutoLockTimer (isUnlocked (state w))
        (w\<lparr>server := snd (net (PostVaultVerify (hashPassword rt password)) (server w)),
           wire := wire w @ [PostVaultVerify (hashPassword rt password)],
           salt := Some (hexToBytes s), sessionKey := Some k,
           state := (state w)\<lparr>isUnlocked := True\<rparr>\<rparr>))"
  using assms
  by (simp add: unlock_def api_verifyVaultPassword_def send_eq Let_def)






subsection \<open>The timer\<close>

lemma coherent_owned: "coherent w \<Longrightarrow> owned w"
  by (auto simp: coherent_def owned_def map_eq_Cons_conv split: if_splits option.splits)

lemma filter_owned:
  "owned w \<Longrightarrow> autoLockTimer w = Some t \<Longrightarrow> filter (\<lambda>p. fst p \<noteq> t) (timeouts w) = []"
  by (auto simp: owned_def filter_empty_conv)

lemma owned_None: "owned w \<Longrightarrow> autoLockTimer w = None \<Longrightarrow> timeouts w = []"
  by (cases "timeouts w") (auto simp: owned_def)

lemma reset_True:
  assumes "owned w"
  shows "resetAutoLockTimer True w =
     w\<lparr>timeouts := [(nextTimeoutId w, clock w + AUTO_LOCK_TIMEOUT)],
       nextTimeoutId := Suc (nextTimeoutId w),
       autoLockTimer := Some (nextTimeoutId w)\<rparr>"
proof (cases "autoLockTimer w")
  case None
  with assms have "timeouts w = []" by (rule owned_None)
  with None show ?thesis
    by (simp add: resetAutoLockTimer_def setTimeout_def)
next
  case (Some t)
  with assms have "filter (\<lambda>p. fst p \<noteq> t) (timeouts w) = []" by (rule filter_owned)
  with Some show ?thesis
    by (simp add: resetAutoLockTimer_def setTimeout_def clearTimeout_def)
qed

lemma reset_False:
  assumes "owned w"
  shows "resetAutoLockTimer False w = w\<lparr>timeouts := []\<rparr>"
proof (cases "autoLockTimer w")
  case None
  with assms have "timeouts w = []" by (rule owned_None)
  with None show ?thesis
    by (simp add: resetAutoLockTimer_def)
next
  case (Some t)
  with assms have "filter (\<lambda>p. fst p \<noteq> t) (timeouts w) = []" by (rule filter_owned)
  with Some show ?thesis
    by (simp add: resetAutoLockTimer_def clearTimeout_def)
qed

lemma lock_owned:
  assumes "owned w"
  shows "lock w = w\<lparr>sessionKey := None, state := (state w)\<lparr>isUnlocked := False\<rparr>,
                   timeouts := [], autoLockTimer := None\<rparr>"
proof (cases "autoLockTimer w")
  case None
  with assms have "timeouts w = []" by (rule owned_None)
  with None show ?thesis
    by (simp add: lock_def)
next
  case (Some t)
  with assms have "filter (\<lambda>p. fst p \<noteq> t) (timeouts w) = []" by (rule filter_owned)
  with Some show ?thesis
    by (simp add: lock_def clearTimeout_def)
qed

lemma userLock_owned:
  assumes "owned w"
  shows "userLock w = w\<lparr>sessionKey := None, state := (state w)\<lparr>isUnlocked := False\<rparr>,
                       timeouts := [], autoLockTimer := None,
                       listening := (listening w \<and> \<not> isUnlocked (state w))\<rparr>"
  by (simp add: userLock_def lock_owned [OF assms] render_def effectCleanup_def)

lemma coherent_userLock: "coherent w \<Longrightarrow> coherent (userLock w)"
  by (frule coherent_owned) (simp add: userLock_owned coherent_def)

lemma coherent_userActivity: "coherent w \<Longrightarrow> coherent (userActivity w)"
  by (frule coherent_owned) (simp add: userActivity_def reset_True coherent_def)


lemma coherent_alt:
  "coherent w =
     (listening w = isUnlocked (state w) \<and>
      (if isUnlocked (state w)
       then (\<exists>t. autoLockTimer w = Some t \<and> map fst (timeouts w) = [t])
       else timeouts w = []))"
  by (auto simp: coherent_def split: option.splits)

lemma coherent_cong:
  assumes "state w' = state w" and "autoLockTimer w' = autoLockTimer w"
    and "listening w' = listening w" and "timeouts w' = timeouts w"
  shows "coherent w' = coherent w"
  using assms by (auto simp: coherent_def split: option.splits)

lemma render_same: "isUnlocked (state w) = prev \<Longrightarrow> render prev w = w"
  by (simp add: render_def)

lemma userUnlock_failure:
  assumes "\<forall>s. fst (net (PostVaultVerify (hashPassword rt password)) (server w)) \<noteq> Inr (VerifyData True s)"
  shows "userUnlock rt net password w = unlock rt net password w"
  by (simp add: userUnlock_def unlock_failure [where net = net, OF assms] render_def)

lemma userUnlock_success:
  assumes ok: "fst (net (PostVaultVerify (hashPassword rt password)) (server w)) = Inr (VerifyData True s)"
    and co: "coherent w"
  shows "\<exists>k. deriveKey rt password (hexToBytes s) = Inr k \<and>
     userUnlock rt net password w =
     (True, w\<lparr>server := snd (net (PostVaultVerify (hashPassword rt password)) (server w)),
              wire := wire w @ [PostVaultVerify (hashPassword rt password)],
              salt := Some (hexToBytes s), sessionKey := Some k,
              state := (state w)\<lparr>isUnlocked := True\<rparr>,
              listening := True,
              timeouts := [(nextTimeoutId w, clock w + AUTO_LOCK_TIMEOUT)],
              nextTimeoutId := Suc (nextTimeoutId w),
              autoLockTimer := Some (nextTimeoutId w)\<rparr>)"
proof -
  obtain k where k: "deriveKey rt password (hexToBytes s) = Inr k"
    by (simp add: deriveKey_eq)
  let ?w4 = "w\<lparr>server := snd (net (PostVaultVerify (hashPassword rt password)) (server w)),
           wire := wire w @ [PostVaultVerify (hashPassword rt password)],
           salt := Some (hexToBytes s), sessionKey := Some k,
           state := (state w)\<lparr>isUnlocked := True\<rparr>\<rparr>"
  have own: "owned ?w4"
    using coherent_owned [OF co] by (simp add: owned_def)
  show ?thesis
  proof (cases "isUnlocked (state w)")
    case True
    with co have "listening w" by (simp add: coherent_def)
    with True show ?thesis
      using k
      by (simp add: userUnlock_def unlock_success [where net = net, OF ok k] reset_True [OF own]
          render_def)
  next
    case False
    with co have "timeouts w = []" by (simp add: coherent_def)
    then have own': "owned (?w4\<lparr>timeouts := [], listening := True\<rparr>)"
      by (simp add: owned_def)
    from False show ?thesis
      using k reset_True [OF own']
      by (simp add: userUnlock_def unlock_success [where net = net, OF ok k]
          reset_False [OF own] render_def effectSetup_def)
  qed
qed

lemma coherent_userUnlock:
  assumes "coherent w"
  shows "coherent (snd (userUnlock rt net password w))"
proof (cases "\<exists>s. fst (net (PostVaultVerify (hashPassword rt password)) (server w)) = Inr (VerifyData True s)")
  case True
  then obtain s where "fst (net (PostVaultVerify (hashPassword rt password)) (server w)) = Inr (VerifyData True s)" ..
  from userUnlock_success [where net = net, OF this assms] show ?thesis
    by (auto simp: coherent_def)
next
  case False
  then have "\<forall>s. fst (net (PostVaultVerify (hashPassword rt password)) (server w)) \<noteq> Inr (VerifyData True s)"
    by simp
  then show ?thesis
    using assms
    by (simp add: userUnlock_failure [where net = net] unlock_failure [where net = net]
        coherent_alt)
qed


lemma setupVault_failure:
  assumes "fst (net (PostVaultSetup (hashPassword rt password)
             (bytesToHex (fst (generateSalt (entropy w)))) hint) (server w)) = Inl err"
  shows "setupVault rt net password hint w =
     (Inl err,
      w\<lparr>entropy := snd (generateSalt (entropy w)),
        server := snd (net (PostVaultSetup (hashPassword rt password)
             (bytesToHex (fst (generateSalt (entropy w)))) hint) (server w)),
        wire := wire w @ [PostVaultSetup (hashPassword rt password)
             (bytesToHex (fst (generateSalt (entropy w)))) hint],
        console := console w @ [(''Failed to setup vault:'', err)]\<rparr>)"
  using assms
  by (simp add: setupVault_def api_setupVault_def send_eq consoleError_def Let_def split_def)

lemma setupVault_success:
  assumes "fst (net (PostVaultSetup (hashPassword rt password)
             (bytesToHex (fst (generateSalt (entropy w)))) hint) (server w)) = Inr resp"
    and "deriveKey rt password (fst (generateSalt (entropy w))) = Inr k"
  shows "setupVault rt net password hint w =
     (Inr (),
      resetAutoLockTimer (isUnlocked (state w))
       (w\<lparr>entropy := snd (generateSalt (entropy w)),
          server := snd (net (PostVaultSetup (hashPassword rt password)
             (bytesToHex (fst (generateSalt (entropy w)))) hint) (server w)),
          wire := wire w @ [PostVaultSetup (hashPassword rt password)
             (bytesToHex (fst (generateSalt (entropy w)))) hint],
          salt := Some (fst (generateSalt (entropy w))), sessionKey := Some k,
          state := (state w)\<lparr>isSetup := True, isUnlocked := True,
                              passwordHint := orNull hint\<rparr>\<rparr>))"
  using assms
  by (simp add: setupVault_def api_setupVault_def send_eq Let_def split_def)

lemma coherent_userSetup:
  assumes co: "coherent w"
  shows "coherent (snd (userSetup rt net password hint w))"
proof (cases "fst (net (PostVaultSetup (hashPassword rt password)
             (bytesToHex (fst (generateSalt (entropy w)))) hint) (server w))")
  case (Inl err)
  then show ?thesis
    using co
    by (simp add: userSetup_def setupVault_failure [where net = net] render_def coherent_alt)
next
  case (Inr resp)
  obtain k where k: "deriveKey rt password (fst (generateSalt (entropy w))) = Inr k"
    by (simp add: deriveKey_eq)
  let ?w4 = "w\<lparr>entropy := snd (generateSalt (entropy w)),
          server := snd (net (PostVaultSetup (hashPassword rt password)
             (bytesToHex (fst (generateSalt (entropy w)))) hint) (server w)),
          wire := wire w @ [PostVaultSetup (hashPassword rt password)
             (bytesToHex (fst (generateSalt (entropy w)))) hint],
          salt := Some (fst (generateSalt (entropy w))), sessionKey := Some k,
          state := (state w)\<lparr>isSetup := True, isUnlocked := True,
                              passwordHint := orNull hint\<rparr>\<rparr>"
  have own: "owned ?w4"
    using coherent_owned [OF co] by (simp add: owned_def)
  show ?thesis
  proof (cases "isUnlocked (state w)")
    case True
    with co have "listening w" by (simp add: coherent_alt)
    with True show ?thesis
      by (simp add: userSetup_def setupVault_success [where net = net, OF Inr k]
          reset_True [OF own] render_def coherent_alt)
  next
    case False
    with co have "timeouts w = []" by (simp add: coherent_alt)
    then have own': "owned (?w4\<lparr>timeouts := [], listening := True\<rparr>)"
      by (simp add: owned_def)
    from False show ?thesis
      using reset_True [OF own']
      by (simp add: userSetup_def setupVault_success [where net = net, OF Inr k]
          reset_False [OF own] render_def effectSetup_def coherent_alt)
  qed
qed

lemma changePassword_frame:
  "state (snd (changePassword rt net oldPassword newPassword w)) = state w \<and>
   autoLockTimer (snd (changePassword rt net oldPassword newPassword w)) = autoLockTimer w \<and>
   listening (snd (changePassword rt net oldPassword newPassword w)) = listening w \<and>
   timeouts (snd (changePassword rt net oldPassword newPassword w)) = timeouts w \<and>
   nextTimeoutId (snd (changePassword rt net oldPassword newPassword w)) = nextTimeoutId w \<and>
   clock (snd (changePassword rt net oldPassword newPassword w)) = clock w"
  by (simp add: changePassword_def api_verifyVaultPassword_def api_changeVaultPassword_def
      send_eq consoleError_def Let_def split_def split: sum.splits response.splits)

lemma coherent_changePassword:
  "coherent (snd (changePassword rt net oldPassword newPassword w)) = coherent w"
  by (rule coherent_cong) (simp_all add: changePassword_frame)

lemma elapse_locked:
  assumes "coherent w" and "\<not> isUnlocked (state w)"
  shows "elapse ms w = w\<lparr>clock := clock w + ms\<rparr>"
  using assms by (simp add: elapse_def coherent_alt Let_def)

lemma elapse_unlocked:
  assumes co: "coherent w" and un: "isUnlocked (state w)" and t: "timeouts w = [(t, d)]"
  shows "elapse ms w =
     (if d \<le> clock w + ms then userLock (w\<lparr>clock := clock w + ms\<rparr>)
      else w\<lparr>clock := clock w + ms\<rparr>)"
proof -
  let ?w1 = "w\<lparr>clock := clock w + ms\<rparr>"
  from co un t have ref: "autoLockTimer w = Some t"
    by (auto simp: coherent_alt)
  have "fire t ?w1 = userLock ?w1"
    using t un ref
    by (simp add: fire_def userLock_def lock_def clearTimeout_def Let_def)
  then show ?thesis
    using t by (simp add: elapse_def Let_def)
qed

lemma coherent_elapse:
  assumes co: "coherent w"
  shows "coherent (elapse ms w)"
proof (cases "isUnlocked (state w)")
  case False
  with co show ?thesis
    by (simp add: elapse_locked coherent_alt)
next
  case True
  with co obtain t d where t: "timeouts w = [(t, d)]"
    by (auto simp: coherent_alt map_eq_Cons_conv)
  have "coherent (w\<lparr>clock := clock w + ms\<rparr>)"
    using co by (simp add: coherent_alt)
  then have "coherent (userLock (w\<lparr>clock := clock w + ms\<rparr>))"
    by (rule coherent_userLock)
  then show ?thesis
    using co by (simp add: elapse_unlocked [OF co True t] coherent_alt)
qed

lemma checkVaultStatus_frame:
  "isUnlocked (state (checkVaultStatus net w)) = isUnlocked (state w) \<and>
   sessionKey (checkVaultStatus net w) = sessionKey w \<and>
   autoLockTimer (checkVaultStatus net w) = autoLockTimer w \<and>
   listening (checkVaultStatus net w) = listening w \<and>
   timeouts (checkVaultStatus net w) = timeouts w \<and>
   nextTimeoutId (checkVaultStatus net w) = nextTimeoutId w \<and>
   clock (checkVaultStatus net w) = clock w"
  by (simp add: checkVaultStatus_def api_getVaultStatus_def send_eq consoleError_def Let_def
      split: sum.splits response.splits option.splits)

lemma updateHint_frame:
  "isUnlocked (state (snd (updateHint net hint w))) = isUnlocked (state w) \<and>
   sessionKey (snd (updateHint net hint w)) = sessionKey w \<and>
   autoLockTimer (snd (updateHint net hint w)) = autoLockTimer w \<and>
   listening (snd (updateHint net hint w)) = listening w \<and>
   timeouts (snd (updateHint net hint w)) = timeouts w \<and>
   nextTimeoutId (snd (updateHint net hint w)) = nextTimeoutId w \<and>
   clock (snd (updateHint net hint w)) = clock w"
  by (simp add: updateHint_def api_updateVaultHint_def send_eq consoleError_def
      split: sum.splits)

lemma coherent_checkVaultStatus: "coherent (checkVaultStatus net w) = coherent w"
  by (simp add: coherent_alt checkVaultStatus_frame)

lemma coherent_updateHint: "coherent (snd (updateHint net hint w)) = coherent w"
  by (simp add: coherent_alt updateHint_frame)

lemma coherent_step: "coherent w \<Longrightarrow> coherent (step rt net ev w)"
  by (cases ev)
    (simp_all add: step_def coherent_checkVaultStatus coherent_updateHint coherent_userLock
      coherent_userUnlock coherent_userSetup coherent_changePassword coherent_userActivity
      coherent_elapse)

lemma coherent_initial: "coherent (initialWorld e sv)"
  by (simp add: coherent_def initialWorld_def)

lemma coherent_fold: "coherent w \<Longrightarrow> coherent (fold (step rt net) evs w)"
  by (induction evs arbitrary: w) (simp_all add: coherent_step)

lemma coherent_run: "coherent (run rt net evs (initialWorld e sv))"
  by (simp add: run_def coherent_fold coherent_initial)


subsection \<open>Locking\<close>

lemma lock_idem: "lock (lock w) = lock w"
  by (simp add: lock_def clearTimeout_def Let_def split: option.splits)

lemma lock_fields:
  "sessionKey (lock w) = None" "isUnlocked (state (lock w)) = False" "autoLockTimer (lock w) = None"
  by (simp_all add: lock_def clearTimeout_def Let_def split: option.splits)

lemma lock_timeouts:
  "timeouts (lock w) = (case autoLockTimer w of None \<Rightarrow> timeouts w
      | Some t \<Rightarrow> filter (\<lambda>p. fst p \<noteq> t) (timeouts w))"
  by (simp add: lock_def clearTimeout_def Let_def split: option.splits)

lemma userLock_eq:
  "userLock w = (if isUnlocked (state w) then (lock w)\<lparr>listening := False\<rparr> else lock w)"
  by (simp add: userLock_def render_def effectCleanup_def lock_fields Let_def)

lemma userLock_idem: "userLock (userLock w) = userLock w"
  by (simp add: userLock_eq lock_fields) (simp add: lock_def clearTimeout_def Let_def split: option.splits)

subsection \<open>The demo vault\<close>

lemma send_demoNet_setup:
  "fst (demoNet (PostVaultSetup h s hint) sv) = Inr NoData"
  "snd (demoNet (PostVaultSetup h s hint) sv) = sv\<lparr>vaultRecord := Some (h, s, hint)\<rparr>"
  by (simp_all add: demoNet_def specServer_def)

lemma demoMounted_eq:
  "checkVaultStatus demoNet (initialWorld demoEntropy emptyStore) =
     \<lparr>state = \<lparr>isSetup = False, isUnlocked = False, isLoading = False,
                passwordHint = None, privateDrawingsCount = 0\<rparr>,
      sessionKey = None, salt = None, autoLockTimer = None,
      listening = False, timeouts = [], nextTimeoutId = 1, clock = 0,
      entropy = demoEntropy, server = emptyStore, wire = [GetVaultStatus], console = []\<rparr>"
  by (simp add: checkVaultStatus_def api_getVaultStatus_def send_eq demoNet_def specServer_def
      initialWorld_def emptyStore_def orNull_def orZero_def Let_def)

lemma demoUnlocked_eq:
  "demoUnlocked =
     \<lparr>state = \<lparr>isSetup = True, isUnlocked = True, isLoading = False,
                passwordHint = Some ''stable animal'', privateDrawingsCount = 0\<rparr>,
      sessionKey = Some \<lparr>algorithm = AES_GCM KEY_LENGTH, extractable = False,
                         usages = [Encrypt, Decrypt],
                         material = pbkdf2 demoRuntime SHA_256
                           (textEncode demoRuntime (ustr ''Correct-Horse1''))
                           (fst (generateSalt demoEntropy)) PBKDF2_ITERATIONS KEY_LENGTH\<rparr>,
      salt = Some (fst (generateSalt demoEntropy)),
      autoLockTimer = Some 1, listening = True, timeouts = [(1, AUTO_LOCK_TIMEOUT)],
      nextTimeoutId = 2, clock = 0,
      entropy = snd (generateSalt demoEntropy),
      server = \<lparr>vaultRecord = Some (hashPassword demoRuntime (ustr ''Correct-Horse1''),
                   bytesToHex (fst (generateSalt demoEntropy)), Some ''stable animal''),
                encryptedRecords = []\<rparr>,
      wire = [GetVaultStatus,
              PostVaultSetup (hashPassword demoRuntime (ustr ''Correct-Horse1''))
                (bytesToHex (fst (generateSalt demoEntropy))) (Some ''stable animal'')],
      console = []\<rparr>"
proof -
  let ?m = "checkVaultStatus demoNet (initialWorld demoEntropy emptyStore)"
  have r: "fst (demoNet (PostVaultSetup (hashPassword demoRuntime (ustr ''Correct-Horse1''))
             (bytesToHex (fst (generateSalt (entropy ?m))))
             (Some ''stable animal'')) (server ?m)) = Inr NoData"
    by (simp add: send_demoNet_setup)
  show ?thesis
    by (simp add: demoUnlocked_def userSetup_def
        setupVault_success [where net = demoNet, OF r deriveKey_eq] send_demoNet_setup)
      (simp add: demoMounted_eq resetAutoLockTimer_def render_def effectSetup_def
        setTimeout_def orNull_def, simp add: emptyStore_def)
qed

lemma demoUnlocked_facts:
  "isUnlocked (state demoUnlocked)" "timeouts demoUnlocked = [(1, AUTO_LOCK_TIMEOUT)]"
  "autoLockTimer demoUnlocked = Some 1" "listening demoUnlocked"
  "nextTimeoutId demoUnlocked = 2" "clock demoUnlocked = 0"
  by (simp_all add: demoUnlocked_eq)

lemma demoUnlocked_coherent: "coherent demoUnlocked"
  by (simp add: coherent_def demoUnlocked_facts)

text \<open>
  C7. \<open>lock\<close> sets the session key to null, sets \<open>isUnlocked\<close> to false, clears the
  timeout the ref names and resets the ref. Applying it twice is applying it once, from any
  state, locked ones included; so is the lock the page performs (\<open>lock\<close> and the render
  after it). In a state that keeps the timer discipline no timeout is left pending.
\<close>

theorem C7_lock_idempotent:
  "lock (lock w) = lock w \<and>
   sessionKey (lock w) = None \<and>
   isUnlocked (state (lock w)) = False \<and>
   autoLockTimer (lock w) = None \<and>
   (\<forall>t. autoLockTimer w = Some t \<longrightarrow> t \<notin> set (map fst (timeouts (lock w)))) \<and>
   (coherent w \<longrightarrow> timeouts (lock w) = []) \<and>
   userLock (userLock w) = userLock w \<and>
   sessionKey (userLock w) = None \<and>
   isUnlocked (state (userLock w)) = False"
proof -
  have "\<forall>t. autoLockTimer w = Some t \<longrightarrow> t \<notin> set (map fst (timeouts (lock w)))"
    by (auto simp: lock_timeouts)
  moreover have "coherent w \<longrightarrow> timeouts (lock w) = []"
    using lock_owned [of w] coherent_owned [of w] by auto
  moreover have "sessionKey (userLock w) = None" and "isUnlocked (state (userLock w)) = False"
    by (simp_all add: userLock_eq lock_fields)
  ultimately show ?thesis
    by (simp add: lock_idem lock_fields userLock_idem)
qed

theorem C7_lock_idempotent_witness:
  "coherent demoUnlocked \<and> isUnlocked (state demoUnlocked) \<and>
   timeouts demoUnlocked = [(1, AUTO_LOCK_TIMEOUT)] \<and>
   lock (lock demoUnlocked) = lock demoUnlocked \<and>
   sessionKey (lock demoUnlocked) = None \<and>
   isUnlocked (state (lock demoUnlocked)) = False \<and>
   timeouts (lock demoUnlocked) = [] \<and>
   1 \<notin> set (map fst (timeouts (lock demoUnlocked)))"
  using C7_lock_idempotent [of demoUnlocked] demoUnlocked_coherent demoUnlocked_facts
  by simp

subsection \<open>A failed unlock\<close>

text \<open>Whenever the verification request does not come back as a success, \<open>unlock\<close>
  returns false and leaves the state, the session key, the salt and the timer as they
  were, and no render effect follows: a locked vault stays locked.\<close>

lemma unlock_failure_frame:
  assumes "\<forall>s. fst (net (PostVaultVerify (hashPassword rt password)) (server w)) \<noteq> Inr (VerifyData True s)"
  shows "fst (unlock rt net password w) = False \<and>
         state (snd (unlock rt net password w)) = state w \<and>
         sessionKey (snd (unlock rt net password w)) = sessionKey w \<and>
         salt (snd (unlock rt net password w)) = salt w \<and>
         autoLockTimer (snd (unlock rt net password w)) = autoLockTimer w \<and>
         timeouts (snd (unlock rt net password w)) = timeouts w \<and>
         listening (snd (unlock rt net password w)) = listening w \<and>
         console (snd (unlock rt net password w)) =
           console w @
           (case fst (net (PostVaultVerify (hashPassword rt password)) (server w)) of
              Inl err \<Rightarrow> [(''Failed to unlock vault:'', err)]
            | Inr resp \<Rightarrow> []) \<and>
         userUnlock rt net password w = unlock rt net password w"
  by (simp add: userUnlock_failure [where net = net, OF assms])
    (simp add: unlock_failure [where net = net, OF assms])

text \<open>The modal's \<^verbatim>\<open>catch\<close> never runs on \<^verbatim>\<open>vault.unlock\<close>: after a submit it shows
  nothing or \<^verbatim>\<open>'Incorrect password'\<close>.\<close>

lemma submitUnlock_shows:
  assumes "modalPassword m \<noteq> []"
  shows "modalError (fst (submitUnlock rt net m w)) =
     (if fst (userUnlock rt net (modalPassword m) w) then NoError else IncorrectPassword)"
  using assms
  by (simp add: submitUnlock_def handleSubmit_def Let_def split_def)

lemma lockedDemo_facts:
  "isUnlocked (state (userLock demoUnlocked)) = False"
  "sessionKey (userLock demoUnlocked) = None"
  "server (userLock demoUnlocked) = server demoUnlocked"
  "wire (userLock demoUnlocked) = wire demoUnlocked"
  by (simp_all add: userLock_owned [OF coherent_owned [OF demoUnlocked_coherent]])

lemma bytesToHex_inj: "bytesToHex a = bytesToHex b \<Longrightarrow> a = b"
  by (metis hexToBytes_bytesToHex)

lemma demo_hash_differs:
  "hashPassword demoRuntime (ustr ''wrong'') \<noteq> hashPassword demoRuntime (ustr ''Correct-Horse1'')"
proof
  assume "hashPassword demoRuntime (ustr ''wrong'') = hashPassword demoRuntime (ustr ''Correct-Horse1'')"
  then have "digest demoRuntime SHA_256 (textEncode demoRuntime (ustr ''wrong'')) =
      digest demoRuntime SHA_256 (textEncode demoRuntime (ustr ''Correct-Horse1''))"
    by (simp add: hashPassword_def subtle_digest_def bytesToHex_inj)
  then show False
    by (simp add: demoRuntime_def demoTextEncode_def ustr_def)
qed

lemma demo_verify_ok:
  "fst (demoNet (PostVaultVerify (hashPassword demoRuntime (ustr ''Correct-Horse1'')))
      (server (userLock demoUnlocked))) =
   Inr (VerifyData True (bytesToHex (fst (generateSalt demoEntropy))))"
  by (simp add: lockedDemo_facts) (simp add: demoNet_def specServer_def demoUnlocked_eq)

lemma demo_unlock_ok:
  "fst (unlock demoRuntime demoNet (ustr ''Correct-Horse1'') (userLock demoUnlocked)) = True"
proof -
  obtain k where k: "deriveKey demoRuntime (ustr ''Correct-Horse1'')
      (hexToBytes (bytesToHex (fst (generateSalt demoEntropy)))) = Inr k"
    by (simp add: deriveKey_eq)
  show ?thesis
    by (simp add: unlock_success [where net = demoNet, OF demo_verify_ok k])
qed

text \<open>
  C4. On a verification that fails, \<open>unlock\<close> returns false and the vault stays locked.
  The claim also requires a request that fails in transport to be told apart from a
  rejected password, and that the code does not do. When \<^verbatim>\<open>POST /vault/verify\<close> fails
  with an error, \<open>unlock\<close> catches it, logs it to the console and returns false, and
  state, session key, salt and timer are as before. The modal, which would show the
  message of an error thrown by \<^verbatim>\<open>onUnlock\<close>, gets no error and shows
  \<^verbatim>\<open>'Incorrect password'\<close>, exactly as it does when the server has answered and rejected
  the digest.
\<close>

theorem C4_transport_error_shown_as_incorrect_password:
  assumes "fst (net (PostVaultVerify (hashPassword rt password)) (server w)) = Inl err"
    and "password \<noteq> []"
  shows "fst (unlock rt net password w) = False \<and>
         state (snd (unlock rt net password w)) = state w \<and>
         sessionKey (snd (unlock rt net password w)) = sessionKey w \<and>
         salt (snd (unlock rt net password w)) = salt w \<and>
         autoLockTimer (snd (unlock rt net password w)) = autoLockTimer w \<and>
         timeouts (snd (unlock rt net password w)) = timeouts w \<and>
         console (snd (unlock rt net password w)) =
           console w @ [(''Failed to unlock vault:'', err)] \<and>
         modalError (fst (submitUnlock rt net (m\<lparr>modalPassword := password\<rparr>) w)) =
           IncorrectPassword \<and>
         (\<forall>net' s. fst (net' (PostVaultVerify (hashPassword rt password)) (server w)) =
                     Inr (VerifyData False s) \<longrightarrow>
            fst (unlock rt net' password w) = fst (unlock rt net password w) \<and>
            modalError (fst (submitUnlock rt net' (m\<lparr>modalPassword := password\<rparr>) w)) =
              modalError (fst (submitUnlock rt net (m\<lparr>modalPassword := password\<rparr>) w)))"
proof -
  have f: "\<forall>s. fst (net (PostVaultVerify (hashPassword rt password)) (server w)) \<noteq>
      Inr (VerifyData True s)"
    using assms(1) by simp
  note A = unlock_failure_frame [where net = net, OF f]
  from A have u: "fst (userUnlock rt net password w) = False"
    by simp
  have B: "modalError (fst (submitUnlock rt net (m\<lparr>modalPassword := password\<rparr>) w)) =
      IncorrectPassword"
    using assms(2) u by (simp add: submitUnlock_shows)
  have C: "fst (unlock rt net' password w) = False \<and>
      modalError (fst (submitUnlock rt net' (m\<lparr>modalPassword := password\<rparr>) w)) =
        IncorrectPassword"
    if r: "fst (net' (PostVaultVerify (hashPassword rt password)) (server w)) =
      Inr (VerifyData False s)" for net' s
  proof -
    have f': "\<forall>s. fst (net' (PostVaultVerify (hashPassword rt password)) (server w)) \<noteq>
        Inr (VerifyData True s)"
      using r by simp
    note A' = unlock_failure_frame [where net = net', OF f']
    from A' have "fst (userUnlock rt net' password w) = False"
      by simp
    with A' assms(2) show ?thesis
      by (simp add: submitUnlock_shows)
  qed
  from A B C assms(1) show ?thesis
    by simp
qed

theorem C4_transport_error_shown_as_incorrect_password_witness:
  "fst (unlock demoRuntime demoNet (ustr ''Correct-Horse1'') (userLock demoUnlocked)) = True \<and>
   fst (unlock demoRuntime netDown (ustr ''Correct-Horse1'') (userLock demoUnlocked)) = False \<and>
   console (snd (unlock demoRuntime netDown (ustr ''Correct-Horse1'') (userLock demoUnlocked))) =
     [(''Failed to unlock vault:'', HttpError None)] \<and>
   modalError (fst (submitUnlock demoRuntime netDown
     \<lparr>modalPassword = ustr ''Correct-Horse1'', modalError = NoError, modalIsLoading = False,
      modalOpen = True\<rparr> (userLock demoUnlocked))) = IncorrectPassword \<and>
   fst (unlock demoRuntime netReject (ustr ''Correct-Horse1'') (userLock demoUnlocked)) = False \<and>
   modalError (fst (submitUnlock demoRuntime netReject
     \<lparr>modalPassword = ustr ''Correct-Horse1'', modalError = NoError, modalIsLoading = False,
      modalOpen = True\<rparr> (userLock demoUnlocked))) = IncorrectPassword"
proof -
  let ?m = "\<lparr>modalPassword = ustr ''Correct-Horse1'', modalError = NoError,
    modalIsLoading = False, modalOpen = True\<rparr>"
  have d: "fst (netDown (PostVaultVerify (hashPassword demoRuntime (ustr ''Correct-Horse1'')))
      (server (userLock demoUnlocked))) = Inl (HttpError None)"
    by (simp add: netDown_def)
  have ne: "ustr ''Correct-Horse1'' \<noteq> []"
    by (simp add: ustr_def)
  have r: "fst (netReject (PostVaultVerify (hashPassword demoRuntime (ustr ''Correct-Horse1'')))
      (server (userLock demoUnlocked))) = Inr (VerifyData False [])"
    by (simp add: netReject_def)
  have c: "console (userLock demoUnlocked) = []"
    by (simp add: userLock_owned [OF coherent_owned [OF demoUnlocked_coherent]])
      (simp add: demoUnlocked_eq)
  have m: "?m\<lparr>modalPassword := ustr ''Correct-Horse1''\<rparr> = ?m"
    by simp
  note T = C4_transport_error_shown_as_incorrect_password
    [where net = netDown and rt = demoRuntime and m = ?m, OF d ne]
  from T r have "fst (unlock demoRuntime netReject (ustr ''Correct-Horse1'') (userLock demoUnlocked)) =
      fst (unlock demoRuntime netDown (ustr ''Correct-Horse1'') (userLock demoUnlocked)) \<and>
    modalError (fst (submitUnlock demoRuntime netReject
      (?m\<lparr>modalPassword := ustr ''Correct-Horse1''\<rparr>) (userLock demoUnlocked))) =
    modalError (fst (submitUnlock demoRuntime netDown
      (?m\<lparr>modalPassword := ustr ''Correct-Horse1''\<rparr>) (userLock demoUnlocked)))"
    by blast
  with T c demo_unlock_ok show ?thesis
    unfolding m by simp
qed

subsection \<open>Auto-lock\<close>

lemma userActivity_unlocked:
  assumes "coherent w" and "isUnlocked (state w)"
  shows "userActivity w =
     w\<lparr>timeouts := [(nextTimeoutId w, clock w + AUTO_LOCK_TIMEOUT)],
       nextTimeoutId := Suc (nextTimeoutId w),
       autoLockTimer := Some (nextTimeoutId w)\<rparr>"
  using assms reset_True [OF coherent_owned [OF assms(1)]]
  by (simp add: userActivity_def coherent_alt)

lemma userActivity_locked:
  assumes "coherent w" and "\<not> isUnlocked (state w)"
  shows "userActivity w = w"
  using assms by (simp add: userActivity_def coherent_alt)

lemma armed_elapse:
  assumes co: "coherent w" and un: "isUnlocked (state w)"
    and t: "timeouts w = [(t, clock w + AUTO_LOCK_TIMEOUT)]"
  shows "(\<forall>ms < AUTO_LOCK_TIMEOUT. elapse ms w = w\<lparr>clock := clock w + ms\<rparr>) \<and>
         (\<forall>ms \<ge> AUTO_LOCK_TIMEOUT. elapse ms w = userLock (w\<lparr>clock := clock w + ms\<rparr>))"
  by (simp add: elapse_unlocked [OF co un t])

lemma userLock_fields:
  assumes "coherent w"
  shows "isUnlocked (state (userLock w)) = False" "sessionKey (userLock w) = None"
    "timeouts (userLock w) = []" "autoLockTimer (userLock w) = None"
    "listening (userLock w) = False"
  using assms by (simp_all add: userLock_owned [OF coherent_owned [OF assms]] coherent_alt)

text \<open>
  C6, as amended. In every state \<open>w\<close> the component reaches from its mount by any calls,
  interactions and passing of time, against any server:
  \<^item> the timeout is the constant \<open>AUTO_LOCK_TIMEOUT\<close>, 15 minutes, and the timer discipline
    holds;
  \<^item> while unlocked, an interaction replaces the pending timeout by one due 15 minutes
    from now; with no further interaction nothing happens before that time, and at that
    time the state becomes what \<open>lock\<close> from the page makes it;
  \<^item> an unlock that succeeds on a locked vault registers the listeners and arms the one
    timeout; 15 minutes later, not earlier, the vault is locked and the session key null;
  \<^item> a lock leaves nothing pending, the ref null and the listeners removed;
  \<^item> while locked nothing is pending, interactions are not observed and time passing
    changes only the clock.
\<close>

theorem C6_auto_lock:
  assumes w: "w = run rt net evs (initialWorld e sv)"
  shows
   "AUTO_LOCK_TIMEOUT = 15 * 60 * 1000 \<and>
    coherent w \<and>
    (isUnlocked (state w) \<longrightarrow>
       isUnlocked (state (userActivity w)) \<and>
       timeouts (userActivity w) = [(nextTimeoutId w, clock w + AUTO_LOCK_TIMEOUT)] \<and>
       autoLockTimer (userActivity w) = Some (nextTimeoutId w) \<and>
       (\<forall>ms < AUTO_LOCK_TIMEOUT.
          elapse ms (userActivity w) = (userActivity w)\<lparr>clock := clock w + ms\<rparr>) \<and>
       (\<forall>ms \<ge> AUTO_LOCK_TIMEOUT.
          elapse ms (userActivity w) = userLock ((userActivity w)\<lparr>clock := clock w + ms\<rparr>))) \<and>
    (\<forall>password w'.
       \<not> isUnlocked (state w) \<and> userUnlock rt net password w = (True, w') \<longrightarrow>
         isUnlocked (state w') \<and> listening w' \<and>
         timeouts w' = [(nextTimeoutId w, clock w + AUTO_LOCK_TIMEOUT)] \<and>
         autoLockTimer w' = Some (nextTimeoutId w) \<and>
         (\<forall>ms < AUTO_LOCK_TIMEOUT. isUnlocked (state (elapse ms w'))) \<and>
         elapse AUTO_LOCK_TIMEOUT w' = userLock (w'\<lparr>clock := clock w + AUTO_LOCK_TIMEOUT\<rparr>) \<and>
         isUnlocked (state (elapse AUTO_LOCK_TIMEOUT w')) = False \<and>
         sessionKey (elapse AUTO_LOCK_TIMEOUT w') = None) \<and>
    (isUnlocked (state (userLock w)) = False \<and> sessionKey (userLock w) = None \<and>
     timeouts (userLock w) = [] \<and> autoLockTimer (userLock w) = None \<and>
     listening (userLock w) = False) \<and>
    (\<not> isUnlocked (state w) \<longrightarrow>
       timeouts w = [] \<and> listening w = False \<and> userActivity w = w \<and>
       (\<forall>ms. elapse ms w = w\<lparr>clock := clock w + ms\<rparr>))"
proof -
  have co: "coherent w"
    unfolding w by (rule coherent_run)
  have A: "AUTO_LOCK_TIMEOUT = 15 * 60 * 1000"
    by (simp add: AUTO_LOCK_TIMEOUT_def)
  have B: "isUnlocked (state w) \<longrightarrow>
       isUnlocked (state (userActivity w)) \<and>
       timeouts (userActivity w) = [(nextTimeoutId w, clock w + AUTO_LOCK_TIMEOUT)] \<and>
       autoLockTimer (userActivity w) = Some (nextTimeoutId w) \<and>
       (\<forall>ms < AUTO_LOCK_TIMEOUT.
          elapse ms (userActivity w) = (userActivity w)\<lparr>clock := clock w + ms\<rparr>) \<and>
       (\<forall>ms \<ge> AUTO_LOCK_TIMEOUT.
          elapse ms (userActivity w) = userLock ((userActivity w)\<lparr>clock := clock w + ms\<rparr>))"
  proof
    assume un: "isUnlocked (state w)"
    let ?a = "userActivity w"
    have eq: "?a = w\<lparr>timeouts := [(nextTimeoutId w, clock w + AUTO_LOCK_TIMEOUT)],
       nextTimeoutId := Suc (nextTimeoutId w), autoLockTimer := Some (nextTimeoutId w)\<rparr>"
      by (rule userActivity_unlocked [OF co un])
    have coa: "coherent ?a" by (rule coherent_userActivity [OF co])
    have una: "isUnlocked (state ?a)" using un by (simp add: eq)
    have ta: "timeouts ?a = [(nextTimeoutId w, clock ?a + AUTO_LOCK_TIMEOUT)]"
      by (simp add: eq)
    have ck: "clock ?a = clock w" by (simp add: eq)
    from armed_elapse [OF coa una ta] una ta ck
    show "isUnlocked (state ?a) \<and>
       timeouts ?a = [(nextTimeoutId w, clock w + AUTO_LOCK_TIMEOUT)] \<and>
       autoLockTimer ?a = Some (nextTimeoutId w) \<and>
       (\<forall>ms < AUTO_LOCK_TIMEOUT. elapse ms ?a = ?a\<lparr>clock := clock w + ms\<rparr>) \<and>
       (\<forall>ms \<ge> AUTO_LOCK_TIMEOUT. elapse ms ?a = userLock (?a\<lparr>clock := clock w + ms\<rparr>))"
      by (simp add: eq)
  qed
  have C: "\<forall>password w'.
       \<not> isUnlocked (state w) \<and> userUnlock rt net password w = (True, w') \<longrightarrow>
         isUnlocked (state w') \<and> listening w' \<and>
         timeouts w' = [(nextTimeoutId w, clock w + AUTO_LOCK_TIMEOUT)] \<and>
         autoLockTimer w' = Some (nextTimeoutId w) \<and>
         (\<forall>ms < AUTO_LOCK_TIMEOUT. isUnlocked (state (elapse ms w'))) \<and>
         elapse AUTO_LOCK_TIMEOUT w' = userLock (w'\<lparr>clock := clock w + AUTO_LOCK_TIMEOUT\<rparr>) \<and>
         isUnlocked (state (elapse AUTO_LOCK_TIMEOUT w')) = False \<and>
         sessionKey (elapse AUTO_LOCK_TIMEOUT w') = None"
  proof (intro allI impI)
    fix password w'
    assume h: "\<not> isUnlocked (state w) \<and> userUnlock rt net password w = (True, w')"
    let ?r = "fst (net (PostVaultVerify (hashPassword rt password)) (server w))"
    have "\<exists>s. ?r = Inr (VerifyData True s)"
    proof (rule ccontr)
      assume "\<not> (\<exists>s. ?r = Inr (VerifyData True s))"
      then have "\<forall>s. ?r \<noteq> Inr (VerifyData True s)" by simp
      then have "fst (userUnlock rt net password w) = False"
        by (simp add: userUnlock_failure [where net = net] unlock_failure [where net = net])
      with h show False by simp
    qed
    then obtain s where s: "?r = Inr (VerifyData True s)" ..
    from userUnlock_success [where net = net, OF s co] h
    obtain k where w': "w' = w\<lparr>server := snd (net (PostVaultVerify (hashPassword rt password)) (server w)),
              wire := wire w @ [PostVaultVerify (hashPassword rt password)],
              salt := Some (hexToBytes s), sessionKey := Some k,
              state := (state w)\<lparr>isUnlocked := True\<rparr>,
              listening := True,
              timeouts := [(nextTimeoutId w, clock w + AUTO_LOCK_TIMEOUT)],
              nextTimeoutId := Suc (nextTimeoutId w),
              autoLockTimer := Some (nextTimeoutId w)\<rparr>"
      by auto
    have co': "coherent w'"
      using coherent_userUnlock [OF co, of rt net password] h by simp
    have un': "isUnlocked (state w')" by (simp add: w')
    have t': "timeouts w' = [(nextTimeoutId w, clock w' + AUTO_LOCK_TIMEOUT)]" by (simp add: w')
    have ck: "clock w' = clock w" by (simp add: w')
    have co'': "coherent (w'\<lparr>clock := clock w + AUTO_LOCK_TIMEOUT\<rparr>)"
      using co' by (simp add: coherent_alt)
    from armed_elapse [OF co' un' t'] un' ck userLock_fields [OF co'']
    show "isUnlocked (state w') \<and> listening w' \<and>
         timeouts w' = [(nextTimeoutId w, clock w + AUTO_LOCK_TIMEOUT)] \<and>
         autoLockTimer w' = Some (nextTimeoutId w) \<and>
         (\<forall>ms < AUTO_LOCK_TIMEOUT. isUnlocked (state (elapse ms w'))) \<and>
         elapse AUTO_LOCK_TIMEOUT w' = userLock (w'\<lparr>clock := clock w + AUTO_LOCK_TIMEOUT\<rparr>) \<and>
         isUnlocked (state (elapse AUTO_LOCK_TIMEOUT w')) = False \<and>
         sessionKey (elapse AUTO_LOCK_TIMEOUT w') = None"
      by (simp add: w')
  qed
  have D: "isUnlocked (state (userLock w)) = False \<and> sessionKey (userLock w) = None \<and>
     timeouts (userLock w) = [] \<and> autoLockTimer (userLock w) = None \<and>
     listening (userLock w) = False"
    by (simp add: userLock_fields [OF co])
  have E: "\<not> isUnlocked (state w) \<longrightarrow>
       timeouts w = [] \<and> listening w = False \<and> userActivity w = w \<and>
       (\<forall>ms. elapse ms w = w\<lparr>clock := clock w + ms\<rparr>)"
    using co by (simp add: userActivity_locked elapse_locked) (simp add: coherent_alt)
  from A co B C D E show ?thesis by blast
qed


lemma demo_run: "demoUnlocked =
    run demoRuntime demoNet [CheckStatus, Setup (ustr ''Correct-Horse1'') (Some ''stable animal'')]
      (initialWorld demoEntropy emptyStore)"
  by (simp add: run_def step_def demoUnlocked_def)

lemma demo_run_locked: "userLock demoUnlocked =
    run demoRuntime demoNet
      [CheckStatus, Setup (ustr ''Correct-Horse1'') (Some ''stable animal''), Lock]
      (initialWorld demoEntropy emptyStore)"
  by (simp add: run_def step_def demoUnlocked_def)

theorem C6_auto_lock_witness:
  "isUnlocked (state demoUnlocked) \<and>
   timeouts (userActivity demoUnlocked) = [(2, 900000)] \<and>
   elapse 899999 (userActivity demoUnlocked) = (userActivity demoUnlocked)\<lparr>clock := 899999\<rparr> \<and>
   elapse 900000 (userActivity demoUnlocked) =
     userLock ((userActivity demoUnlocked)\<lparr>clock := 900000\<rparr>) \<and>
   isUnlocked (state (userLock demoUnlocked)) = False \<and>
   userActivity (userLock demoUnlocked) = userLock demoUnlocked \<and>
   fst (userUnlock demoRuntime demoNet (ustr ''Correct-Horse1'') (userLock demoUnlocked)) = True \<and>
   isUnlocked (state (elapse 899999
     (snd (userUnlock demoRuntime demoNet (ustr ''Correct-Horse1'') (userLock demoUnlocked))))) \<and>
   isUnlocked (state (elapse AUTO_LOCK_TIMEOUT
     (snd (userUnlock demoRuntime demoNet (ustr ''Correct-Horse1'') (userLock demoUnlocked))))) = False"
proof -
  have T: "AUTO_LOCK_TIMEOUT = 900000"
    by (simp add: AUTO_LOCK_TIMEOUT_def)
  note one = C6_auto_lock [OF demo_run]
  note two = C6_auto_lock [OF demo_run_locked]
  have locked: "\<not> isUnlocked (state (userLock demoUnlocked))"
    by (simp add: lockedDemo_facts)
  obtain w' where u: "userUnlock demoRuntime demoNet (ustr ''Correct-Horse1'') (userLock demoUnlocked) = (True, w')"
    using userUnlock_success [where net = demoNet, OF demo_verify_ok coherent_userLock [OF demoUnlocked_coherent]]
    by auto
  from two locked u have
    "(\<forall>ms < AUTO_LOCK_TIMEOUT. isUnlocked (state (elapse ms w'))) \<and>
     isUnlocked (state (elapse AUTO_LOCK_TIMEOUT w')) = False"
    by blast
  then have three: "isUnlocked (state (elapse 899999 w'))"
    "isUnlocked (state (elapse AUTO_LOCK_TIMEOUT w')) = False"
    by (simp_all add: T)
  from two locked have four: "userActivity (userLock demoUnlocked) = userLock demoUnlocked"
    by blast
  from one have five:
    "timeouts (userActivity demoUnlocked) = [(2, 900000)]"
    "elapse 899999 (userActivity demoUnlocked) = (userActivity demoUnlocked)\<lparr>clock := 899999\<rparr>"
    "elapse 900000 (userActivity demoUnlocked) =
       userLock ((userActivity demoUnlocked)\<lparr>clock := 900000\<rparr>)"
    by (simp_all add: demoUnlocked_facts T)
  from three four five locked u show ?thesis
    by (simp add: demoUnlocked_facts)
qed

text \<open>
  The claim calls the 15 minutes a configurable default. They are not configurable: every
  timeout \<open>resetAutoLockTimer\<close> adds, in any state, is due exactly 15 * 60 * 1000
  milliseconds from the clock.
\<close>

lemma timeouts_reset:
  "timeouts (resetAutoLockTimer u w) =
     (case autoLockTimer w of None \<Rightarrow> timeouts w
        | Some t \<Rightarrow> filter (\<lambda>p. fst p \<noteq> t) (timeouts w)) @
     (if u then [(nextTimeoutId w, clock w + AUTO_LOCK_TIMEOUT)] else [])"
  by (simp add: resetAutoLockTimer_def setTimeout_def clearTimeout_def Let_def
      split: option.splits)

theorem C6_timeout_is_fixed:
  "\<not> (\<exists>(w :: serverStore world) u p.
        p \<in> set (timeouts (resetAutoLockTimer u w)) \<and> p \<notin> set (timeouts w) \<and>
        snd p \<noteq> clock w + 15 * 60 * 1000)"
  by (auto simp: timeouts_reset AUTO_LOCK_TIMEOUT_def split: option.splits if_splits)

subsection \<open>What goes to the server\<close>








subsection \<open>Changing the password\<close>

lemma changePassword_success:
  assumes v: "fst (net (PostVaultVerify (hashPassword rt oldPassword)) (server w)) =
      Inr (VerifyData True s)"
    and p: "fst (net (PutVaultPassword (hashPassword rt newPassword)
                   (bytesToHex (fst (generateSalt (entropy w)))))
              (snd (net (PostVaultVerify (hashPassword rt oldPassword)) (server w)))) = Inr resp"
    and k: "deriveKey rt newPassword (fst (generateSalt (entropy w))) = Inr newKey"
  shows "changePassword rt net oldPassword newPassword w =
     (Inr (),
      w\<lparr>server := snd (net (PutVaultPassword (hashPassword rt newPassword)
                   (bytesToHex (fst (generateSalt (entropy w)))))
              (snd (net (PostVaultVerify (hashPassword rt oldPassword)) (server w)))),
        wire := wire w @ [PostVaultVerify (hashPassword rt oldPassword),
                  PutVaultPassword (hashPassword rt newPassword)
                    (bytesToHex (fst (generateSalt (entropy w))))],
        entropy := snd (generateSalt (entropy w)),
        salt := Some (fst (generateSalt (entropy w))),
        sessionKey := Some newKey\<rparr>)"
  using v p k
  by (simp add: changePassword_def api_verifyVaultPassword_def api_changeVaultPassword_def
      send_eq Let_def split_def deriveKey_eq)

text \<open>On the demo platform a drawing sealed under one derived key does not open under
  another.\<close>

lemma demo_decryptDrawing_other_key:
  assumes k1: "deriveKey demoRuntime password1 salt1 = Inr k1"
    and k2: "deriveKey demoRuntime password2 salt2 = Inr k2"
    and ne: "material k1 \<noteq> material k2"
  shows "decryptDrawing demoRuntime
      (btoa demoRuntime (binaryString (aesGcmSeal demoRuntime (material k1) n p)))
      (bytesToHex n) k2 = Inl OperationError"
proof -
  have l: "length (material k1) = length (material k2)"
    by (simp add: demo_material_length [OF k1] demo_material_length [OF k2])
  have rej: "aesGcmOpen demoRuntime (material k2) n (aesGcmSeal demoRuntime (material k1) n p) = None"
    by (rule demo_cipher_rejects [OF l ne])
  show ?thesis
    using demo_base64Correct rej
    by (simp add: decryptDrawing_def deriveKey_usable [OF k2] charCodes_binaryString
        hexToBytes_bytesToHex base64Correct_def)
qed

text \<open>
  C1. The code does not do what the claim says. On the demo vault: a drawing is sealed
  under the session key and stored with the lock route; it opens under that key. Then
  \<open>changePassword\<close> succeeds. It has sent two requests, the verification and the new hash
  and salt, and none that carries a record. The server still holds the same ciphertext
  and IV, the session key is the new key, and the record no longer opens under it.
\<close>

theorem C1_changePassword_keeps_old_ciphertext:
  "\<exists>k enc e' w2 w3 k'.
     sessionKey demoUnlocked = Some k \<and>
     encryptDrawing demoRuntime (ustr ''{note:secret}'') k (entropy demoUnlocked) = (Inr enc, e') \<and>
     api_lockDrawing demoNet ''drawing-1'' (encryptedData enc) (iv enc)
       (demoUnlocked\<lparr>entropy := e'\<rparr>) = (Inr (), w2) \<and>
     map_of (encryptedRecords (server w2)) ''drawing-1'' = Some enc \<and>
     decryptDrawing demoRuntime (encryptedData enc) (iv enc) k = Inr (ustr ''{note:secret}'') \<and>
     changePassword demoRuntime demoNet (ustr ''Correct-Horse1'') (ustr ''New-Password2'') w2 =
       (Inr (), w3) \<and>
     wire w3 = wire w2 @
       [PostVaultVerify (hashPassword demoRuntime (ustr ''Correct-Horse1'')),
        PutVaultPassword (hashPassword demoRuntime (ustr ''New-Password2''))
          (bytesToHex (fst (generateSalt e')))] \<and>
     map_of (encryptedRecords (server w3)) ''drawing-1'' = Some enc \<and>
     sessionKey w3 = Some k' \<and>
     decryptDrawing demoRuntime (encryptedData enc) (iv enc) k' = Inl OperationError"
proof -
  let ?salt1 = "fst (generateSalt demoEntropy)"
  let ?P = "ustr ''{note:secret}''"
  obtain k where k: "deriveKey demoRuntime (ustr ''Correct-Horse1'') ?salt1 = Inr k"
    by (simp add: deriveKey_eq)
  have sk: "sessionKey demoUnlocked = Some k"
    using k by (simp add: demoUnlocked_eq deriveKey_eq)
  let ?n = "fst (generateIV (entropy demoUnlocked))"
  let ?e' = "snd (generateIV (entropy demoUnlocked))"
  let ?enc = "\<lparr>encryptedData = btoa demoRuntime (binaryString (aesGcmSeal demoRuntime (material k) ?n
                  (textEncode demoRuntime ?P))),
              iv = bytesToHex ?n\<rparr>"
  have js: "jsonStringify demoRuntime ?P = Some ?P"
    by (rule demo_json)
  have jp: "jsonParse demoRuntime (textDecode demoRuntime (textEncode demoRuntime ?P)) = Some ?P"
    by (simp only: demo_ustr_roundtrip demo_json)
  have sz: "length (aesGcmSeal demoRuntime (material k) ?n (textEncode demoRuntime ?P))
      \<le> maxArguments demoRuntime"
    by (simp add: demo_seal_length demo_material_length [OF k] length_generateIV IV_LENGTH_def
        demo_maxArguments length_ustr)
  have enc: "encryptDrawing demoRuntime ?P k (entropy demoUnlocked) = (Inr ?enc, ?e')"
    by (rule encryptDrawing_eq [OF k js sz])
  let ?vr = "Some (hashPassword demoRuntime (ustr ''Correct-Horse1''), bytesToHex ?salt1,
    Some ''stable animal'')"
  let ?w2 = "demoUnlocked\<lparr>entropy := ?e',
      server := \<lparr>vaultRecord = ?vr,
                 encryptedRecords = [(''drawing-1'', ?enc)]\<rparr>,
      wire := wire demoUnlocked @ [PutDrawingLock ''drawing-1'' (encryptedData ?enc) (iv ?enc)]\<rparr>"
  have lk: "api_lockDrawing demoNet ''drawing-1'' (encryptedData ?enc) (iv ?enc)
       (demoUnlocked\<lparr>entropy := ?e'\<rparr>) = (Inr (), ?w2)"
    by (simp add: api_lockDrawing_def send_eq demoNet_def specServer_def)
      (simp add: demoUnlocked_eq)
  have rec2: "map_of (encryptedRecords (server ?w2)) ''drawing-1'' = Some ?enc"
    by simp
  have open1: "decryptDrawing demoRuntime (encryptedData ?enc) (iv ?enc) k = Inr ?P"
    using decryptDrawing_sealed [OF demo_aeadCorrect demo_base64Correct k jp, of ?n]
    by simp
  let ?salt2 = "fst (generateSalt ?e')"
  obtain k' where k': "deriveKey demoRuntime (ustr ''New-Password2'') ?salt2 = Inr k'"
    by (simp add: deriveKey_eq)
  have k'2: "deriveKey demoRuntime (ustr ''New-Password2'') (fst (generateSalt (entropy ?w2))) = Inr k'"
    using k' by simp
  have v: "fst (demoNet (PostVaultVerify (hashPassword demoRuntime (ustr ''Correct-Horse1''))) (server ?w2)) =
      Inr (VerifyData True (bytesToHex ?salt1))"
    by (simp add: demoNet_def specServer_def)
  have sv: "snd (demoNet (PostVaultVerify (hashPassword demoRuntime (ustr ''Correct-Horse1''))) (server ?w2)) =
      server ?w2"
    by (simp add: demoNet_def specServer_def)
  have p: "fst (demoNet (PutVaultPassword (hashPassword demoRuntime (ustr ''New-Password2''))
                   (bytesToHex (fst (generateSalt (entropy ?w2)))))
              (snd (demoNet (PostVaultVerify (hashPassword demoRuntime (ustr ''Correct-Horse1''))) (server ?w2)))) =
      Inr NoData"
    by (simp only: sv) (simp add: demoNet_def specServer_def)
  let ?w3 = "snd (changePassword demoRuntime demoNet (ustr ''Correct-Horse1'') (ustr ''New-Password2'') ?w2)"
  note cp = changePassword_success [where net = demoNet, OF v p k'2]
  have res: "changePassword demoRuntime demoNet (ustr ''Correct-Horse1'') (ustr ''New-Password2'') ?w2 =
      (Inr (), ?w3)"
    unfolding cp by simp
  have wire3: "wire ?w3 = wire ?w2 @
       [PostVaultVerify (hashPassword demoRuntime (ustr ''Correct-Horse1'')),
        PutVaultPassword (hashPassword demoRuntime (ustr ''New-Password2'')) (bytesToHex ?salt2)]"
    unfolding cp by simp
  have rec3: "map_of (encryptedRecords (server ?w3)) ''drawing-1'' = Some ?enc"
    unfolding cp by (simp add: demoNet_def specServer_def)
  have sk3: "sessionKey ?w3 = Some k'"
    unfolding cp by simp
  have ne: "material k \<noteq> material k'"
    using k k'
    by (auto simp: deriveKey_eq demoRuntime_def demoTextEncode_def ustr_def KEY_LENGTH_def)
  have open3: "decryptDrawing demoRuntime (encryptedData ?enc) (iv ?enc) k' = Inl OperationError"
    using demo_decryptDrawing_other_key [OF k k' ne, of ?n]
    by simp
  from sk enc lk rec2 open1 res wire3 rec3 sk3 open3 show ?thesis
    by blast
qed

end
